theory Spec2Isabelle
  imports Complex_Main "HOL-Library.Word"
begin

section \<open>JavaScript strings\<close>

text \<open>
  A JavaScript string is a sequence of 16-bit UTF-16 code units. \<open>js\<close> writes an
  ASCII literal as such a sequence.
\<close>

type_synonym jsstring = "16 word list"

definition js :: "string \<Rightarrow> jsstring" where
  "js s = map of_char s"

text \<open>\<^verbatim>\<open>String.prototype.startsWith\<close> and \<^verbatim>\<open>String.prototype.includes\<close>.\<close>

definition startsWith :: "jsstring \<Rightarrow> jsstring \<Rightarrow> bool" where
  "startsWith s p = (take (length p) s = p)"

fun includesStr :: "jsstring \<Rightarrow> jsstring \<Rightarrow> bool" where
  "includesStr [] p = (p = [])"
| "includesStr (c # cs) p = (startsWith (c # cs) p \<or> includesStr cs p)"

text \<open>\<^verbatim>\<open>Array.prototype.join\<close> on an array of strings.\<close>

fun join :: "jsstring \<Rightarrow> jsstring list \<Rightarrow> jsstring" where
  "join sep [] = []"
| "join sep [x] = x"
| "join sep (x # y # ys) = x @ sep @ join sep (y # ys)"

text \<open>
  \<^verbatim>\<open>String.prototype.split\<close> with a string separator and no limit: the separator is
  searched from left to right, the matches do not overlap, and the empty string
  splits into one empty piece. \<open>split_from sep acc s\<close> scans \<open>s\<close> with \<open>acc\<close> the
  piece read since the last match. An empty separator cuts the string into its
  code units.
\<close>

fun split_from :: "jsstring \<Rightarrow> jsstring \<Rightarrow> jsstring \<Rightarrow> jsstring list" where
  "split_from sep acc [] = [acc]"
| "split_from sep acc (c # cs) =
     (if startsWith (c # cs) sep
      then acc # split_from sep [] (drop (length sep - 1) cs)
      else split_from sep (acc @ [c]) cs)"

definition split :: "jsstring \<Rightarrow> jsstring \<Rightarrow> jsstring list" where
  "split s sep = (if sep = [] then map (\<lambda>c. [c]) s else split_from sep [] s)"

section \<open>The URI decoding of ECMAScript\<close>

text \<open>
  \<^verbatim>\<open>decodeURIComponent\<close> is the abstract operation Decode of ECMA-262 with an
  empty set of preserved escapes. It throws URIError on a \<open>%\<close> that is not followed
  by two hexadecimal digits and on escapes that are not the UTF-8 encoding of a
  code point.
\<close>

datatype error = URIError

definition hexDigit :: "16 word \<Rightarrow> nat option" where
  "hexDigit c =
     (let n = unat c in
      if 0x30 \<le> n \<and> n \<le> 0x39 then Some (n - 0x30)
      else if 0x41 \<le> n \<and> n \<le> 0x46 then Some (n - 0x41 + 10)
      else if 0x61 \<le> n \<and> n \<le> 0x66 then Some (n - 0x61 + 10)
      else None)"

fun parseHexOctet :: "jsstring \<Rightarrow> nat option" where
  "parseHexOctet (a # b # rest) =
     (case hexDigit a of None \<Rightarrow> None
      | Some x \<Rightarrow> (case hexDigit b of None \<Rightarrow> None | Some y \<Rightarrow> Some (16 * x + y)))"
| "parseHexOctet s = None"

text \<open>The number of leading 1 bits of an octet; 5 stands for every number above 4.\<close>

definition leadingOnes :: "nat \<Rightarrow> nat" where
  "leadingOnes B =
     (if B < 0x80 then 0 else if B < 0xC0 then 1 else if B < 0xE0 then 2
      else if B < 0xF0 then 3 else if B < 0xF8 then 4 else 5)"

text \<open>The \<open>j\<close> escapes \<open>%XX\<close> that follow the first octet of a multi-byte sequence.\<close>

fun continuationBytes :: "nat \<Rightarrow> jsstring \<Rightarrow> nat list option" where
  "continuationBytes 0 s = Some []"
| "continuationBytes (Suc j) [] = None"
| "continuationBytes (Suc j) (c # rest) =
     (if c \<noteq> 0x25 then None
      else case parseHexOctet rest of None \<Rightarrow> None
        | Some b \<Rightarrow> (case continuationBytes j (drop 2 rest) of None \<Rightarrow> None
            | Some bs \<Rightarrow> Some (b # bs)))"

text \<open>
  The well-formed UTF-8 byte sequences of the Unicode standard (no overlong form,
  no surrogate, nothing above U+10FFFF) and the code point each one encodes.
\<close>

definition isContinuation :: "nat \<Rightarrow> bool" where
  "isContinuation b = (0x80 \<le> b \<and> b \<le> 0xBF)"

definition secondByteOk :: "nat \<Rightarrow> nat \<Rightarrow> bool" where
  "secondByteOk b0 b1 =
     (if b0 = 0xE0 then 0xA0 \<le> b1 \<and> b1 \<le> 0xBF
      else if b0 = 0xED then 0x80 \<le> b1 \<and> b1 \<le> 0x9F
      else if b0 = 0xF0 then 0x90 \<le> b1 \<and> b1 \<le> 0xBF
      else if b0 = 0xF4 then 0x80 \<le> b1 \<and> b1 \<le> 0x8F
      else isContinuation b1)"

fun utf8Decode :: "nat list \<Rightarrow> nat option" where
  "utf8Decode [b0, b1] =
     (if 0xC2 \<le> b0 \<and> b0 \<le> 0xDF \<and> isContinuation b1
      then Some ((b0 - 0xC0) * 0x40 + (b1 - 0x80)) else None)"
| "utf8Decode [b0, b1, b2] =
     (if 0xE0 \<le> b0 \<and> b0 \<le> 0xEF \<and> secondByteOk b0 b1 \<and> isContinuation b2
      then Some ((b0 - 0xE0) * 0x1000 + (b1 - 0x80) * 0x40 + (b2 - 0x80)) else None)"
| "utf8Decode [b0, b1, b2, b3] =
     (if 0xF0 \<le> b0 \<and> b0 \<le> 0xF4 \<and> secondByteOk b0 b1 \<and> isContinuation b2
         \<and> isContinuation b3
      then Some ((b0 - 0xF0) * 0x40000 + (b1 - 0x80) * 0x1000 + (b2 - 0x80) * 0x40
                 + (b3 - 0x80))
      else None)"
| "utf8Decode bs = None"

definition UTF16EncodeCodePoint :: "nat \<Rightarrow> jsstring" where
  "UTF16EncodeCodePoint cp =
     (if cp \<le> 0xFFFF then [of_nat cp]
      else [of_nat ((cp - 0x10000) div 0x400 + 0xD800),
            of_nat ((cp - 0x10000) mod 0x400 + 0xDC00)])"

definition append_result :: "jsstring \<Rightarrow> error + jsstring \<Rightarrow> error + jsstring" where
  "append_result S r = (case r of Inl e \<Rightarrow> Inl e | Inr R \<Rightarrow> Inr (S @ R))"

fun Decode :: "jsstring \<Rightarrow> error + jsstring" where
  "Decode [] = Inr []"
| "Decode (c # rest) =
     (if c \<noteq> 0x25 then append_result [c] (Decode rest)
      else case parseHexOctet rest of None \<Rightarrow> Inl URIError
        | Some B \<Rightarrow>
            (let n = leadingOnes B in
             if n = 0 then append_result [of_nat B] (Decode (drop 2 rest))
             else if n = 1 \<or> 4 < n then Inl URIError
             else case continuationBytes (n - 1) (drop 2 rest) of None \<Rightarrow> Inl URIError
               | Some octets \<Rightarrow>
                   (case utf8Decode (B # octets) of None \<Rightarrow> Inl URIError
                    | Some V \<Rightarrow>
                        append_result (UTF16EncodeCodePoint V)
                          (Decode (drop (2 + 3 * (n - 1)) rest)))))"

definition decodeURIComponent :: "jsstring \<Rightarrow> error + jsstring" where
  "decodeURIComponent s = Decode s"

text \<open>
  \<^verbatim>\<open>segments.map(decodeURIComponent)\<close>: the segments are decoded from left to right
  and the first URIError ends the evaluation.
\<close>

fun mapDecode :: "jsstring list \<Rightarrow> error + jsstring list" where
  "mapDecode [] = Inr []"
| "mapDecode (s # ss) =
     (case decodeURIComponent s of Inl e \<Rightarrow> Inl e
      | Inr d \<Rightarrow> (case mapDecode ss of Inl e \<Rightarrow> Inl e | Inr ds \<Rightarrow> Inr (d # ds)))"

section \<open>The object gateway\<close>

text \<open>
  The values a deployment can bind to a configuration variable, with the truthiness
  that the operator \<^verbatim>\<open>||\<close> tests.
\<close>

datatype jsval = Undefined | Num int | Str jsstring

fun truthy :: "jsval \<Rightarrow> bool" where
  "truthy Undefined = False"
| "truthy (Num n) = (n \<noteq> 0)"
| "truthy (Str s) = (s \<noteq> [])"

definition orElse :: "jsval \<Rightarrow> jsval \<Rightarrow> jsval" where
  "orElse v d = (if truthy v then v else d)"

text \<open>A string or null, as \<^verbatim>\<open>Headers.get\<close> and \<^verbatim>\<open>URLSearchParams.get\<close> return it.\<close>

fun truthyStr :: "jsstring option \<Rightarrow> bool" where
  "truthyStr None = False"
| "truthyStr (Some s) = (s \<noteq> [])"

record httpMetadata =
  contentType :: "jsstring option"

record r2object =
  httpMetadata :: "httpMetadata option"
  body :: "8 word list"

record rateLimitResult =
  allowed :: bool

record eventContext =
  cfConnectingIP :: "jsstring option"
  RATE_LIMIT_REQUESTS :: jsval
  RATE_LIMIT_WINDOW_MS :: jsval
  R2 :: "jsstring \<Rightarrow> r2object option"
  paramsKey :: jsstring
  width :: "jsstring option"
  height :: "jsstring option"
  quality :: "jsstring option"

text \<open>
  The body of a response: a string, the \<^verbatim>\<open>JSON.stringify\<close> of an object given by its
  fields, or the bytes of a stored object.
\<close>

datatype payload =
  Text jsstring
| JsonObject "(jsstring \<times> jsstring) list"
| ObjectBody "8 word list"

record response =
  status :: nat
  headers :: "(jsstring \<times> jsstring) list"
  payload :: payload

text \<open>The calls the handler makes to its collaborators, in order.\<close>

datatype call =
  CheckRateLimit jsstring jsval jsval
| R2Get jsstring

definition msgRateLimited :: jsstring where
  "msgRateLimited =
     [0x8BF7, 0x6C42, 0x8FC7, 0x4E8E, 0x9891, 0x7E41, 0xFF0C, 0x8BF7, 0x7A0D, 0x540E,
      0x518D, 0x8BD5]"

definition msgInvalidPath :: jsstring where
  "msgInvalidPath = [0x65E0, 0x6548, 0x7684, 0x6587, 0x4EF6, 0x8DEF, 0x5F84]"

definition msgNotFound :: jsstring where
  "msgNotFound = [0x672A, 0x627E, 0x5230]"

definition msgVideoError :: jsstring where
  "msgVideoError =
     [0x89C6, 0x9891, 0x7F29, 0x7565, 0x56FE, 0x9700, 0x8981, 0x989D, 0x5916, 0x5904,
      0x7406, 0xFF0C, 0x5F53, 0x524D, 0x7CFB, 0x7EDF, 0x4E0D, 0x652F, 0x6301, 0x76F4,
      0x63A5, 0x751F, 0x6210, 0x89C6, 0x9891, 0x7F29, 0x7565, 0x56FE]"

definition msgVideoSuggestion :: jsstring where
  "msgVideoSuggestion =
     [0x8BF7, 0x8003, 0x8651, 0x4F7F, 0x7528, 0x7B2C, 0x4E09, 0x65B9, 0x89C6, 0x9891,
      0x5904, 0x7406, 0x670D, 0x52A1, 0x6216, 0x5728, 0x524D, 0x7AEF, 0x4F7F, 0x7528,
      0x9ED8, 0x8BA4, 0x5360, 0x4F4D, 0x56FE]"

text \<open>\<^verbatim>\<open>obj.httpMetadata?.contentType\<close>: undefined when either part is missing.\<close>

definition storedContentType :: "r2object \<Rightarrow> jsstring option" where
  "storedContentType obj =
     (case httpMetadata obj of None \<Rightarrow> None | Some m \<Rightarrow> contentType m)"

text \<open>\<^verbatim>\<open>ct?.startsWith(p)\<close>, tested for truthiness: undefined counts as false.\<close>

definition optStartsWith :: "jsstring option \<Rightarrow> jsstring \<Rightarrow> bool" where
  "optStartsWith ct p = (case ct of None \<Rightarrow> False | Some s \<Rightarrow> startsWith s p)"

definition rateLimitKey :: "eventContext \<Rightarrow> jsstring" where
  "rateLimitKey ctx =
     js ''r2:'' @ (if truthyStr (cfConnectingIP ctx) then the (cfConnectingIP ctx)
                   else js ''unknown'')"

definition rateLimitCall :: "eventContext \<Rightarrow> call" where
  "rateLimitCall ctx =
     CheckRateLimit (rateLimitKey ctx)
       (orElse (RATE_LIMIT_REQUESTS ctx) (Num 50))
       (orElse (RATE_LIMIT_WINDOW_MS ctx) (Num 60000))"

text \<open>
  Lines 18 and 19 of the handler: the token is cut at \<^verbatim>\<open>___\<close>, every piece is decoded
  and the pieces are joined with \<^verbatim>\<open>/\<close>.
\<close>

definition decodeSegments :: "jsstring \<Rightarrow> error + jsstring list" where
  "decodeSegments token = mapDecode (split token (js ''___''))"

definition decodeKey :: "jsstring \<Rightarrow> error + jsstring" where
  "decodeKey token =
     (case decodeSegments token of Inl e \<Rightarrow> Inl e | Inr segs \<Rightarrow> Inr (join (js ''/'') segs))"

text \<open>Line 22 of the handler: the path check.\<close>

definition rejectedPath :: "jsstring \<Rightarrow> bool" where
  "rejectedPath key =
     (includesStr key (js ''../'') \<or> includesStr key [0x2E, 0x2E, 0x5C] \<or> startsWith key (js ''/''))"

text \<open>Lines 29 to 65 of the handler: the response for a stored object.\<close>

definition serveObject :: "eventContext \<Rightarrow> r2object \<Rightarrow> response" where
  "serveObject ctx obj =
     (let isVideo = optStartsWith (storedContentType obj) (js ''video/'');
          responseInit =
            [(js ''content-type'',
              if truthyStr (storedContentType obj) then the (storedContentType obj)
              else js ''application/octet-stream''),
             (js ''cache-control'', js ''public, max-age=31536000'')]
      in if (truthyStr (width ctx) \<or> truthyStr (height ctx))
            \<and> optStartsWith (storedContentType obj) (js ''image/'')
         then \<lparr>status = 200,
               headers = [(js ''content-type'', the (storedContentType obj)),
                          (js ''cache-control'', js ''public, max-age=31536000'')],
               payload = ObjectBody (body obj)\<rparr>
         else if (truthyStr (width ctx) \<or> truthyStr (height ctx)) \<and> isVideo
         then \<lparr>status = 400,
               headers = [(js ''content-type'', js ''application/json'')],
               payload = JsonObject [(js ''error'', msgVideoError),
                                     (js ''suggestion'', msgVideoSuggestion)]\<rparr>
         else \<lparr>status = 200, headers = responseInit, payload = ObjectBody (body obj)\<rparr>)"

text \<open>
  The handler \<^verbatim>\<open>onRequestGet\<close>. The rate limiter \<^verbatim>\<open>checkRateLimit\<close> is imported from
  another module and is a parameter here, already applied to the key-value store of
  the environment. The result is the response, or the exception that leaves the
  handler, together with the calls made to the limiter and to the object store.
\<close>

definition onRequestGet ::
  "(jsstring \<Rightarrow> jsval \<Rightarrow> jsval \<Rightarrow> rateLimitResult) \<Rightarrow> eventContext
   \<Rightarrow> (error + response) \<times> call list" where
  "onRequestGet checkRateLimit ctx =
     (let rateLimitResult =
            checkRateLimit (rateLimitKey ctx)
              (orElse (RATE_LIMIT_REQUESTS ctx) (Num 50))
              (orElse (RATE_LIMIT_WINDOW_MS ctx) (Num 60000))
      in if \<not> allowed rateLimitResult
         then (Inr \<lparr>status = 429, headers = [], payload = Text msgRateLimited\<rparr>,
               [rateLimitCall ctx])
         else case decodeKey (paramsKey ctx) of
             Inl e \<Rightarrow> (Inl e, [rateLimitCall ctx])
           | Inr key \<Rightarrow>
               if rejectedPath key
               then (Inr \<lparr>status = 400, headers = [], payload = Text msgInvalidPath\<rparr>,
                     [rateLimitCall ctx])
               else (case R2 ctx key of
                   None \<Rightarrow>
                     (Inr \<lparr>status = 404, headers = [], payload = Text msgNotFound\<rparr>,
                      [rateLimitCall ctx, R2Get key])
                 | Some obj \<Rightarrow> (Inr (serveObject ctx obj), [rateLimitCall ctx, R2Get key])))"

definition storeCalls :: "call list \<Rightarrow> jsstring list" where
  "storeCalls evs = concat (map (\<lambda>e. case e of R2Get k \<Rightarrow> [k] | CheckRateLimit k l w \<Rightarrow> []) evs)"

section \<open>The key encoder\<close>

text \<open>
  The characters that \<^verbatim>\<open>encodeURIComponent\<close> leaves as they are: letters, digits and
  \<^verbatim>\<open>-_.!~*'()\<close>.
\<close>

definition uriUnescaped :: "16 word \<Rightarrow> bool" where
  "uriUnescaped c =
     (let n = unat c in
      (0x41 \<le> n \<and> n \<le> 0x5A) \<or> (0x61 \<le> n \<and> n \<le> 0x7A) \<or> (0x30 \<le> n \<and> n \<le> 0x39)
      \<or> n \<in> set [0x2D, 0x5F, 0x2E, 0x21, 0x7E, 0x2A, 0x27, 0x28, 0x29])"

text \<open>An octet is written \<^verbatim>\<open>%XX\<close> with two upper-case hexadecimal digits.\<close>

definition hexChar :: "nat \<Rightarrow> 16 word" where
  "hexChar n = (if n < 10 then 0x30 + of_nat n else 0x37 + of_nat n)"

definition percentEscape :: "nat \<Rightarrow> jsstring" where
  "percentEscape b = [0x25, hexChar (b div 16), hexChar (b mod 16)]"

text \<open>The UTF-8 encoding of a code point.\<close>

definition utf8Encode :: "nat \<Rightarrow> nat list" where
  "utf8Encode cp =
     (if cp < 0x80 then [cp]
      else if cp < 0x800 then [0xC0 + cp div 0x40, 0x80 + cp mod 0x40]
      else if cp < 0x10000
        then [0xE0 + cp div 0x1000, 0x80 + cp div 0x40 mod 0x40, 0x80 + cp mod 0x40]
      else [0xF0 + cp div 0x40000, 0x80 + cp div 0x1000 mod 0x40,
            0x80 + cp div 0x40 mod 0x40, 0x80 + cp mod 0x40])"

text \<open>Surrogate code units and the code point of a surrogate pair.\<close>

definition isLeadingSurrogate :: "16 word \<Rightarrow> bool" where
  "isLeadingSurrogate c = (0xD800 \<le> unat c \<and> unat c \<le> 0xDBFF)"

definition isTrailingSurrogate :: "16 word \<Rightarrow> bool" where
  "isTrailingSurrogate c = (0xDC00 \<le> unat c \<and> unat c \<le> 0xDFFF)"

definition UTF16SurrogatePairToCodePoint :: "16 word \<Rightarrow> 16 word \<Rightarrow> nat" where
  "UTF16SurrogatePairToCodePoint lead trail =
     (unat lead - 0xD800) * 0x400 + (unat trail - 0xDC00) + 0x10000"

definition escapeCodePoint :: "nat \<Rightarrow> jsstring" where
  "escapeCodePoint cp = concat (map percentEscape (utf8Encode cp))"

text \<open>
  The abstract operation Encode of ECMA-262 with the unescaped set of
  \<^verbatim>\<open>encodeURIComponent\<close>: it throws URIError on an unpaired surrogate.
\<close>

fun Encode :: "jsstring \<Rightarrow> error + jsstring" where
  "Encode [] = Inr []"
| "Encode (c # rest) =
     (if uriUnescaped c then append_result [c] (Encode rest)
      else if isLeadingSurrogate c then
        (case rest of
           [] \<Rightarrow> Inl URIError
         | d # rest' \<Rightarrow>
             if isTrailingSurrogate d
             then append_result (escapeCodePoint (UTF16SurrogatePairToCodePoint c d))
                    (Encode rest')
             else Inl URIError)
      else if isTrailingSurrogate c then Inl URIError
      else append_result (escapeCodePoint (unat c)) (Encode rest))"

definition encodeURIComponent :: "jsstring \<Rightarrow> error + jsstring" where
  "encodeURIComponent s = Encode s"

fun mapEncode :: "jsstring list \<Rightarrow> error + jsstring list" where
  "mapEncode [] = Inr []"
| "mapEncode (s # ss) =
     (case encodeURIComponent s of Inl e \<Rightarrow> Inl e
      | Inr d \<Rightarrow> (case mapEncode ss of Inl e \<Rightarrow> Inl e | Inr ds \<Rightarrow> Inr (d # ds)))"

text \<open>
  Modelled from the spec: the encoder of the key codec is not among the source
  files. The spec has each segment percent-encoded independently and the results
  joined with the 3-character delimiter; the comment at line 17 of the handler gives
  the token as
  \<^verbatim>\<open>encodeURIComponent(a)___encodeURIComponent(b)___encodeURIComponent(c)\<close>.
\<close>

definition encodeKey :: "jsstring list \<Rightarrow> error + jsstring" where
  "encodeKey segments =
     (case mapEncode segments of Inl e \<Rightarrow> Inl e | Inr es \<Rightarrow> Inr (join (js ''___'') es))"


section \<open>Example requests\<close>

text \<open>Two rate limiters, a small object store and requests against it.\<close>

definition allowAll :: "jsstring \<Rightarrow> jsval \<Rightarrow> jsval \<Rightarrow> rateLimitResult" where
  "allowAll k l w = \<lparr>allowed = True\<rparr>"

definition rejectAll :: "jsstring \<Rightarrow> jsval \<Rightarrow> jsval \<Rightarrow> rateLimitResult" where
  "rejectAll k l w = \<lparr>allowed = False\<rparr>"

definition pngObject :: r2object where
  "pngObject =
     \<lparr>httpMetadata = Some \<lparr>contentType = Some (js ''image/png'')\<rparr>,
      body = [0x89, 0x50, 0x4E, 0x47]\<rparr>"

definition mp4Object :: r2object where
  "mp4Object =
     \<lparr>httpMetadata = Some \<lparr>contentType = Some (js ''video/mp4'')\<rparr>,
      body = [0x00, 0x00, 0x00, 0x18]\<rparr>"

definition rawObject :: r2object where
  "rawObject = \<lparr>httpMetadata = None, body = [0x01, 0x02]\<rparr>"

definition exampleStore :: "jsstring \<Rightarrow> r2object option" where
  "exampleStore k =
     (if k = js ''photos/cat.png'' then Some pngObject
      else if k = js ''clips/a.mp4'' then Some mp4Object
      else if k = js ''notes/raw'' then Some rawObject
      else None)"

definition request :: "jsstring \<Rightarrow> jsstring option \<Rightarrow> jsstring option \<Rightarrow> eventContext" where
  "request token w h =
     \<lparr>cfConnectingIP = Some (js ''203.0.113.7''),
      RATE_LIMIT_REQUESTS = Undefined,
      RATE_LIMIT_WINDOW_MS = Undefined,
      R2 = exampleStore,
      paramsKey = token,
      width = w,
      height = h,
      quality = None\<rparr>"

text \<open>A deployment that configures zero requests and a window of zero milliseconds.\<close>

definition zeroLimits :: eventContext where
  "zeroLimits =
     \<lparr>cfConnectingIP = None,
      RATE_LIMIT_REQUESTS = Num 0,
      RATE_LIMIT_WINDOW_MS = Num 0,
      R2 = exampleStore,
      paramsKey = js ''photos___cat.png'',
      width = None,
      height = None,
      quality = None\<rparr>"

text \<open>A deployment that configures the limit as the string \<^verbatim>\<open>"0"\<close>.\<close>

definition stringZeroLimit :: eventContext where
  "stringZeroLimit =
     \<lparr>cfConnectingIP = None,
      RATE_LIMIT_REQUESTS = Str (js ''0''),
      RATE_LIMIT_WINDOW_MS = Num 1000,
      R2 = exampleStore,
      paramsKey = js ''photos___cat.png'',
      width = None,
      height = None,
      quality = None\<rparr>"

text \<open>
  Stated from the claim's words: the path, cut at \<^verbatim>\<open>/\<close>, has a segment equal to
  \<^verbatim>\<open>..\<close>.
\<close>

definition hasDotDotSegment :: "jsstring \<Rightarrow> bool" where
  "hasDotDotSegment key = (js ''..'' \<in> set (split key (js ''/'')))"

section \<open>Numbers of the capture code\<close>

text \<open>
  A JavaScript number is an IEEE 754 binary64 value. \<open>binary64 x\<close> is the double
  nearest to a positive rational \<open>x\<close> in the normal range, ties going to the even
  significand: with \<open>2 ^ e \<le> x < 2 ^ (e + 1)\<close> the doubles around \<open>x\<close> are the
  multiples of \<open>2 ^ (e - 52)\<close>. \<open>exponent n x\<close> finds \<open>e\<close> in at most \<open>n\<close>
  halvings or doublings; 1100 steps cover every exponent of the format. Zero is
  rounded to zero.
\<close>

definition roundTiesToEven :: "rat \<Rightarrow> int" where
  "roundTiesToEven q =
     (let f = \<lfloor>q\<rfloor>; r = q - of_int f
      in if r < 1 / 2 then f else if 1 / 2 < r then f + 1 else if even f then f else f + 1)"

fun exponent :: "nat \<Rightarrow> rat \<Rightarrow> int" where
  "exponent 0 x = 0"
| "exponent (Suc n) x =
     (if x < 1 then exponent n (2 * x) - 1
      else if 2 \<le> x then exponent n (x / 2) + 1
      else 0)"

definition binary64 :: "rat \<Rightarrow> rat" where
  "binary64 x =
     (let u = 2 powi (exponent 1100 x - 52) in of_int (roundTiesToEven (x / u)) * u)"

text \<open>\<^verbatim>\<open>Math.round\<close>: the nearest integer, a tie going up.\<close>

definition mathRound :: "rat \<Rightarrow> int" where
  "mathRound x = \<lfloor>x + 1 / 2\<rfloor>"

section \<open>The video thumbnail generator\<close>

text \<open>
  What the video element and the canvas of one capture attempt answer: the
  dimensions of the video (\<^verbatim>\<open>unsigned long\<close> attributes), whether setting
  \<^verbatim>\<open>currentTime\<close> throws, whether the canvas gives a 2D context, and the data URL that
  \<^verbatim>\<open>toDataURL\<close> returns for a canvas of a given width and height, an image type and a
  quality (\<open>None\<close> when drawing or encoding throws).
\<close>

datatype element = HTMLDivElement

record video =
  videoWidth :: "32 word"
  videoHeight :: "32 word"
  currentTimeThrows :: bool
  context2d :: bool
  toDataURL :: "nat \<Rightarrow> nat \<Rightarrow> jsstring \<Rightarrow> rat \<Rightarrow> jsstring option"

text \<open>
  The component \<^verbatim>\<open>VideoThumbnailGenerator\<close>: its two state variables, its ref, whether
  the intersection observer of its effect is observing, where the asynchronous
  function \<^verbatim>\<open>generate\<close> is waiting, and how often \<^verbatim>\<open>start\<close> has been called.
\<close>

datatype phase = NotRunning | AwaitingMetadata | AwaitingSeek

record generator =
  videoThumb :: "jsstring option"
  isGeneratingThumb :: bool
  containerRef :: "element option"
  observing :: bool
  phase :: phase
  started :: nat


text \<open>
  What reaches the component from outside: the observer reports its entries, the
  video element fires \<^verbatim>\<open>loadedmetadata\<close>, \<^verbatim>\<open>seeked\<close> or \<^verbatim>\<open>error\<close>.
\<close>

datatype event =
  Intersect bool
| LoadedMetadata video
| Seeked video
| VideoError


text \<open>
  Lines 77 to 185, the body of the effect: nothing happens when a thumbnail exists, an
  attempt is running or the ref holds no element; otherwise an observer is put on
  the element.
\<close>

definition effect :: "generator \<Rightarrow> generator" where
  "effect c =
     (if truthyStr (videoThumb c) \<or> isGeneratingThumb c then c
      else case containerRef c of
          None \<Rightarrow> c
        | Some el \<Rightarrow> c\<lparr>observing := True\<rparr>)"

text \<open>
  A change of \<^verbatim>\<open>videoThumb\<close> or \<^verbatim>\<open>isGeneratingThumb\<close> renders the component again: the
  cleanup of the effect disconnects the observer and the effect runs anew.
\<close>

definition rerender :: "generator \<Rightarrow> generator" where
  "rerender c = effect (c\<lparr>observing := False\<rparr>)"

text \<open>
  The first render. Neither element that the component returns carries
  \<^verbatim>\<open>ref={containerRef}\<close>, so the ref keeps the \<^verbatim>\<open>null\<close> that \<^verbatim>\<open>useRef\<close> gave it; no
  operation below writes it.
\<close>

definition mount :: generator where
  "mount =
     effect \<lparr>videoThumb = None, isGeneratingThumb = False, containerRef = None,
             observing = False, phase = NotRunning, started = 0\<rparr>"


text \<open>
  Lines 83 to 165, \<^verbatim>\<open>start\<close>: the flag is set and \<^verbatim>\<open>generate\<close> runs up to its first
  wait. The ends of \<^verbatim>\<open>generate\<close>: the data URL is stored (line 154), the \<^verbatim>\<open>catch\<close>
  block stores \<^verbatim>\<open>null\<close> (line 158), or there is no 2D context and nothing is stored;
  the \<^verbatim>\<open>finally\<close> block clears the flag each time (line 160).
\<close>

definition start :: "generator \<Rightarrow> generator" where
  "start c =
     rerender (c\<lparr>isGeneratingThumb := True, phase := AwaitingMetadata,
                 started := Suc (started c)\<rparr>)"

definition stored :: "jsstring \<Rightarrow> generator \<Rightarrow> generator" where
  "stored dataUrl c =
     rerender (c\<lparr>videoThumb := Some dataUrl, isGeneratingThumb := False, phase := NotRunning\<rparr>)"

definition failed :: "generator \<Rightarrow> generator" where
  "failed c =
     rerender (c\<lparr>videoThumb := None, isGeneratingThumb := False, phase := NotRunning\<rparr>)"

definition noContext :: "generator \<Rightarrow> generator" where
  "noContext c = rerender (c\<lparr>isGeneratingThumb := False, phase := NotRunning\<rparr>)"

text \<open>
  Lines 143 to 155. \<^verbatim>\<open>vw * 9 / 16\<close> is exact in binary64 for a 32-bit \<^verbatim>\<open>vw\<close>, so its
  floor is the integer quotient; the quotient \<^verbatim>\<open>targetW / vw\<close> and the product
  \<^verbatim>\<open>vh * scale\<close> are rounded to doubles.
\<close>

definition targetW :: nat where
  "targetW = 600"

definition vw :: "video \<Rightarrow> nat" where
  "vw v = (if videoWidth v = 0 then 640 else unat (videoWidth v))"

definition vh :: "video \<Rightarrow> nat" where
  "vh v = (if videoHeight v = 0 then vw v * 9 div 16 else unat (videoHeight v))"

definition scale :: "video \<Rightarrow> rat" where
  "scale v = binary64 (of_nat targetW / of_nat (vw v))"

definition canvasHeight :: "video \<Rightarrow> nat" where
  "canvasHeight v = nat (max 1 (mathRound (binary64 (of_nat (vh v) * scale v))))"

definition capture :: "video \<Rightarrow> generator \<Rightarrow> generator" where
  "capture v c =
     (if context2d v
      then case toDataURL v targetW (canvasHeight v) (js ''image/jpeg'') (8 / 10) of
          None \<Rightarrow> failed c
        | Some dataUrl \<Rightarrow> stored dataUrl c
      else noContext c)"

text \<open>
  One event. The observer calls \<^verbatim>\<open>start\<close> for an intersecting entry (lines 167 to
  178). After \<^verbatim>\<open>loadedmetadata\<close> the code seeks to 0.5 s and waits for \<^verbatim>\<open>seeked\<close>, or
  goes on at once when setting \<^verbatim>\<open>currentTime\<close> throws (lines 112 to 141). An
  \<^verbatim>\<open>error\<close> event rejects either wait. An event nobody listens to changes nothing.
\<close>

fun step :: "event \<Rightarrow> generator \<Rightarrow> generator" where
  "step (Intersect isIntersecting) c = (if observing c \<and> isIntersecting then start c else c)"
| "step (LoadedMetadata v) c =
     (if phase c = AwaitingMetadata
      then if currentTimeThrows v then capture v c else c\<lparr>phase := AwaitingSeek\<rparr>
      else c)"
| "step (Seeked v) c = (if phase c = AwaitingSeek then capture v c else c)"
| "step VideoError c =
     (if phase c = AwaitingMetadata \<or> phase c = AwaitingSeek then failed c else c)"

fun run :: "event list \<Rightarrow> generator \<Rightarrow> generator" where
  "run [] c = c"
| "run (e # es) c = run es (step e c)"

text \<open>
  The event makes the running attempt fail: an \<^verbatim>\<open>error\<close> event during either wait,
  or an exception while the frame is drawn and encoded.
\<close>

fun attemptFails :: "event \<Rightarrow> generator \<Rightarrow> bool" where
  "attemptFails (Intersect isIntersecting) c = False"
| "attemptFails (LoadedMetadata v) c =
     (phase c = AwaitingMetadata \<and> currentTimeThrows v \<and> context2d v
      \<and> toDataURL v targetW (canvasHeight v) (js ''image/jpeg'') (8 / 10) = None)"
| "attemptFails (Seeked v) c =
     (phase c = AwaitingSeek \<and> context2d v
      \<and> toDataURL v targetW (canvasHeight v) (js ''image/jpeg'') (8 / 10) = None)"
| "attemptFails VideoError c = (phase c = AwaitingMetadata \<or> phase c = AwaitingSeek)"









section \<open>Facts about the handler and the example requests\<close>

lemma trace_starts_with_rate_limit:
  "\<exists>rest. snd (onRequestGet chk ctx) = rateLimitCall ctx # rest"
  by (simp add: onRequestGet_def Let_def split: sum.split option.split)

lemma startsWith_nonempty: "startsWith s (c # p) \<Longrightarrow> s \<noteq> []"
  by (auto simp: startsWith_def)

lemma video_not_image:
  "startsWith s (js ''video/'') \<Longrightarrow> \<not> startsWith s (js ''image/'')"
  by (auto simp: startsWith_def js_def)

lemma decode_tokens:
  "decodeKey (js ''photos___cat.png'') = Inr (js ''photos/cat.png'')"
  "decodeKey (js ''clips___a.mp4'') = Inr (js ''clips/a.mp4'')"
  "decodeKey (js ''notes___raw'') = Inr (js ''notes/raw'')"
  "decodeKey (js ''a___..'') = Inr (js ''a/..'')"
  "decodeKey (js ''%'') = Inl URIError"
  by (simp_all add: decodeKey_def decodeSegments_def split_def js_def startsWith_def
      decodeURIComponent_def append_result_def)

lemma decode_more_tokens:
  "decodeKey (js ''..___etc'') = Inr (js ''../etc'')"
  "decodeKey (js ''a%5C..'') = Inr [0x61, 0x5C, 0x2E, 0x2E]"
  by (simp_all add: decodeKey_def decodeSegments_def split_def js_def startsWith_def
      decodeURIComponent_def append_result_def hexDigit_def leadingOnes_def)

lemma example_rate_limit_call:
  "rateLimitCall (request t w h) = CheckRateLimit (js ''r2:203.0.113.7'') (Num 50) (Num 60000)"
  by (simp add: rateLimitCall_def rateLimitKey_def request_def orElse_def js_def)

lemma example_allowed:
  "allowed (allowAll (rateLimitKey ctx) (orElse (RATE_LIMIT_REQUESTS ctx) (Num 50))
     (orElse (RATE_LIMIT_WINDOW_MS ctx) (Num 60000)))"
  by (simp add: allowAll_def)

lemma rejected_examples:
  "\<not> rejectedPath (js ''photos/cat.png'')"
  "\<not> rejectedPath (js ''clips/a.mp4'')"
  "\<not> rejectedPath (js ''notes/raw'')"
  "\<not> rejectedPath (js ''a/..'')"
  "\<not> rejectedPath [0x61, 0x5C, 0x2E, 0x2E]"
  by (simp_all add: rejectedPath_def js_def startsWith_def)

lemma store_examples:
  "exampleStore (js ''photos/cat.png'') = Some pngObject"
  "exampleStore (js ''clips/a.mp4'') = Some mp4Object"
  "exampleStore (js ''notes/raw'') = Some rawObject"
  "exampleStore (js ''a/..'') = None"
  "exampleStore [0x61, 0x5C, 0x2E, 0x2E] = None"
  by (simp_all add: exampleStore_def js_def)

lemma orElse_nonzero: "d \<noteq> 0 \<Longrightarrow> orElse v (Num d) \<noteq> Num 0"
  by (cases v) (auto simp: orElse_def)

lemma orElse_falsy: "\<not> truthy v \<Longrightarrow> orElse v d = d"
  by (simp add: orElse_def)

lemma orElse_truthy: "truthy v \<Longrightarrow> orElse v d = v"
  by (simp add: orElse_def)

section \<open>Facts about the key codec\<close>

lemma unat_of_nat_16: "k < 0x10000 \<Longrightarrow> unat (of_nat k :: 16 word) = k"
  by (simp add: unat_of_nat)

lemma unat_hexChar:
  assumes "n < 16"
  shows "unat (hexChar n) = (if n < 10 then 0x30 + n else 0x37 + n)"
proof -
  have "hexChar n = of_nat (if n < 10 then 0x30 + n else 0x37 + n)"
    by (simp add: hexChar_def)
  moreover have "(if n < 10 then 0x30 + n else 0x37 + n) < 0x10000"
    using assms by simp
  ultimately show ?thesis
    by (simp only: unat_of_nat_16)
qed

lemma hexDigit_hexChar: "n < 16 \<Longrightarrow> hexDigit (hexChar n) = Some n"
  by (simp add: hexDigit_def unat_hexChar)

lemma hexChar_not_underscore:
  assumes "n < 16"
  shows "hexChar n \<noteq> 0x5F"
proof
  assume "hexChar n = 0x5F"
  then have "unat (hexChar n) = 0x5F"
    by simp
  with assms show False
    by (simp add: unat_hexChar split: if_splits)
qed

lemma parseHexOctet_percent:
  "b < 256 \<Longrightarrow> parseHexOctet (hexChar (b div 16) # hexChar (b mod 16) # t) = Some b"
  by (simp add: hexDigit_hexChar)

lemma continuationBytes_escapes:
  "\<forall>b \<in> set bs. b < 256 \<Longrightarrow>
   continuationBytes (length bs) (concat (map percentEscape bs) @ t) = Some bs"
  by (induction bs) (simp_all add: percentEscape_def parseHexOctet_percent del: parseHexOctet.simps)

lemma length_escapes: "length (concat (map percentEscape bs)) = 3 * length bs"
  by (induction bs) (simp_all add: percentEscape_def)

lemma Decode_escape_ascii:
  assumes "B < 0x80"
  shows "Decode (percentEscape B @ t) = append_result [of_nat B] (Decode t)"
proof -
  have "B < 256" using assms by simp
  then have "parseHexOctet (hexChar (B div 16) # hexChar (B mod 16) # t) = Some B"
    by (rule parseHexOctet_percent)
  moreover have "leadingOnes B = 0"
    using assms by (simp add: leadingOnes_def)
  ultimately show ?thesis
    by (simp add: percentEscape_def)
qed

lemma Decode_escape_multi:
  assumes "\<forall>b \<in> set (B # bs). b < 256"
    and "leadingOnes B = Suc (length bs)"
    and "bs \<noteq> []" and "length bs \<le> 3"
    and "utf8Decode (B # bs) = Some V"
  shows "Decode (concat (map percentEscape (B # bs)) @ t) =
         append_result (UTF16EncodeCodePoint V) (Decode t)"
proof -
  let ?tail = "concat (map percentEscape bs) @ t"
  have B: "B < 256" using assms(1) by simp
  have hex: "parseHexOctet (hexChar (B div 16) # hexChar (B mod 16) # ?tail) = Some B"
    using B by (rule parseHexOctet_percent)
  have cont: "continuationBytes (length bs) ?tail = Some bs"
    using assms(1) by (simp add: continuationBytes_escapes)
  have drop: "drop (3 * length bs) ?tail = t"
    by (simp add: length_escapes)
  have n: "leadingOnes B \<noteq> 0" "leadingOnes B \<noteq> 1" "\<not> 4 < leadingOnes B"
    "leadingOnes B - 1 = length bs"
    using assms(2,3,4) by (cases bs; simp)+
  show ?thesis
    using hex cont drop n assms(5)
    by (simp add: percentEscape_def Let_def)
qed

lemma utf8_two:
  assumes "0x80 \<le> cp" and "cp < 0x800"
  shows "utf8Encode cp = [0xC0 + cp div 0x40, 0x80 + cp mod 0x40]"
    and "0xC0 + cp div 0x40 < 256" and "0x80 + cp mod 0x40 < 256"
    and "leadingOnes (0xC0 + cp div 0x40) = 2"
    and "utf8Decode [0xC0 + cp div 0x40, 0x80 + cp mod 0x40] = Some cp"
  using assms
  by (auto simp: utf8Encode_def leadingOnes_def isContinuation_def)

lemma split_12_6:
  "(cp::nat) div 0x1000 * 0x1000 + cp div 0x40 mod 0x40 * 0x40 + cp mod 0x40 = cp"
proof -
  have "cp div 0x40 div 0x40 = cp div 0x1000"
    by (simp add: div_mult2_eq[symmetric])
  then have "cp div 0x1000 * 0x40 + cp div 0x40 mod 0x40 = cp div 0x40"
    by (metis div_mult_mod_eq)
  then have "(cp div 0x1000 * 0x40 + cp div 0x40 mod 0x40) * 0x40 + cp mod 0x40 = cp"
    by simp
  then show ?thesis by (simp add: algebra_simps)
qed

lemma split_18_12:
  "(cp::nat) div 0x40000 * 0x40000 + cp div 0x1000 mod 0x40 * 0x1000 + cp mod 0x1000 = cp"
proof -
  have "cp div 0x1000 div 0x40 = cp div 0x40000"
    by (simp add: div_mult2_eq[symmetric])
  then have "cp div 0x40000 * 0x40 + cp div 0x1000 mod 0x40 = cp div 0x1000"
    by (metis div_mult_mod_eq)
  then have "(cp div 0x40000 * 0x40 + cp div 0x1000 mod 0x40) * 0x1000 + cp mod 0x1000 = cp"
    by simp
  then show ?thesis by (simp add: algebra_simps)
qed

lemma utf8_three:
  assumes "0x800 \<le> cp" and "cp < 0x10000" and "cp < 0xD800 \<or> 0xDFFF < cp"
  shows "utf8Encode cp = [0xE0 + cp div 0x1000, 0x80 + cp div 0x40 mod 0x40, 0x80 + cp mod 0x40]"
    and "0xE0 + cp div 0x1000 < 256" and "0x80 + cp div 0x40 mod 0x40 < 256"
    and "0x80 + cp mod 0x40 < 256"
    and "leadingOnes (0xE0 + cp div 0x1000) = 3"
    and "utf8Decode [0xE0 + cp div 0x1000, 0x80 + cp div 0x40 mod 0x40, 0x80 + cp mod 0x40]
         = Some cp"
proof -
  define h where "h = cp div 0x1000"
  define r where "r = cp div 0x40 mod 0x40"
  define l where "l = cp mod 0x40"
  have cp: "h * 0x1000 + r * 0x40 + l = cp"
    unfolding h_def r_def l_def by (rule split_12_6)
  have small: "r < 0x40" "l < 0x40"
    unfolding r_def l_def by simp_all
  have h: "h < 0x10"
    using cp small assms(2) by linarith
  have snd: "secondByteOk (0xE0 + h) (0x80 + r)"
    using cp small assms h unfolding secondByteOk_def isContinuation_def by auto
  show "utf8Encode cp = [0xE0 + cp div 0x1000, 0x80 + cp div 0x40 mod 0x40, 0x80 + cp mod 0x40]"
    using assms by (simp add: utf8Encode_def)
  show "0xE0 + cp div 0x1000 < 256" using h by (simp add: h_def)
  show "0x80 + cp div 0x40 mod 0x40 < 256" using small by (simp add: r_def)
  show "0x80 + cp mod 0x40 < 256" using small by (simp add: l_def)
  show "leadingOnes (0xE0 + cp div 0x1000) = 3"
    using h by (simp add: leadingOnes_def h_def)
  have "utf8Decode [0xE0 + h, 0x80 + r, 0x80 + l] = Some cp"
    using h snd cp small by (simp add: isContinuation_def)
  then show "utf8Decode [0xE0 + cp div 0x1000, 0x80 + cp div 0x40 mod 0x40, 0x80 + cp mod 0x40]
         = Some cp"
    by (simp add: h_def r_def l_def)
qed

lemma utf8_four:
  assumes "0x10000 \<le> cp" and "cp \<le> 0x10FFFF"
  shows "utf8Encode cp = [0xF0 + cp div 0x40000, 0x80 + cp div 0x1000 mod 0x40,
            0x80 + cp div 0x40 mod 0x40, 0x80 + cp mod 0x40]"
    and "0xF0 + cp div 0x40000 < 256" and "0x80 + cp div 0x1000 mod 0x40 < 256"
    and "0x80 + cp div 0x40 mod 0x40 < 256" and "0x80 + cp mod 0x40 < 256"
    and "leadingOnes (0xF0 + cp div 0x40000) = 4"
    and "utf8Decode [0xF0 + cp div 0x40000, 0x80 + cp div 0x1000 mod 0x40,
            0x80 + cp div 0x40 mod 0x40, 0x80 + cp mod 0x40] = Some cp"
proof -
  define g where "g = cp div 0x40000"
  define h where "h = cp div 0x1000 mod 0x40"
  define r where "r = cp div 0x40 mod 0x40"
  define l where "l = cp mod 0x40"
  have "cp div 0x1000 * 0x1000 + r * 0x40 + l = cp"
    unfolding r_def l_def by (rule split_12_6)
  moreover have "cp mod 0x1000 = cp - cp div 0x1000 * 0x1000"
    by (simp add: minus_div_mult_eq_mod)
  ultimately have low: "cp mod 0x1000 = r * 0x40 + l"
    by linarith
  have "g * 0x40000 + h * 0x1000 + cp mod 0x1000 = cp"
    unfolding g_def h_def by (rule split_18_12)
  with low have cp: "g * 0x40000 + h * 0x1000 + r * 0x40 + l = cp"
    by linarith
  have small: "h < 0x40" "r < 0x40" "l < 0x40"
    unfolding h_def r_def l_def by simp_all
  have g: "g \<le> 4"
    using cp small assms(2) by linarith
  have snd: "secondByteOk (0xF0 + g) (0x80 + h)"
    using cp small assms g unfolding secondByteOk_def isContinuation_def by auto
  show "utf8Encode cp = [0xF0 + cp div 0x40000, 0x80 + cp div 0x1000 mod 0x40,
            0x80 + cp div 0x40 mod 0x40, 0x80 + cp mod 0x40]"
    using assms by (simp add: utf8Encode_def)
  show "0xF0 + cp div 0x40000 < 256" using g by (simp add: g_def)
  show "0x80 + cp div 0x1000 mod 0x40 < 256" using small by (simp add: h_def)
  show "0x80 + cp div 0x40 mod 0x40 < 256" using small by (simp add: r_def)
  show "0x80 + cp mod 0x40 < 256" using small by (simp add: l_def)
  show "leadingOnes (0xF0 + cp div 0x40000) = 4"
    using g by (simp add: leadingOnes_def g_def)
  have "utf8Decode [0xF0 + g, 0x80 + h, 0x80 + r, 0x80 + l] = Some cp"
    using g snd cp small by (simp add: isContinuation_def)
  then show "utf8Decode [0xF0 + cp div 0x40000, 0x80 + cp div 0x1000 mod 0x40,
            0x80 + cp div 0x40 mod 0x40, 0x80 + cp mod 0x40] = Some cp"
    by (simp add: g_def h_def r_def l_def)
qed

lemma append_result_Inr:
  "append_result p r = Inr t \<longleftrightarrow> (\<exists>t'. r = Inr t' \<and> t = p @ t')"
  by (cases r) (auto simp: append_result_def)

lemma unat_16_bound: "unat (c :: 16 word) < 0x10000"
  using unsigned_less [of c, where ?'a = nat] by simp

lemma UTF16_single: "UTF16EncodeCodePoint (unat (c :: 16 word)) = [c]"
  using unat_16_bound [of c] by (simp add: UTF16EncodeCodePoint_def)

lemma UTF16_pair:
  assumes "isLeadingSurrogate c" and "isTrailingSurrogate d"
  shows "UTF16EncodeCodePoint (UTF16SurrogatePairToCodePoint c d) = [c, d]"
proof -
  let ?cp = "UTF16SurrogatePairToCodePoint c d"
  have c: "0xD800 \<le> unat c" "unat c \<le> 0xDBFF" and d: "0xDC00 \<le> unat d" "unat d \<le> 0xDFFF"
    using assms by (simp_all add: isLeadingSurrogate_def isTrailingSurrogate_def)
  have cp: "?cp - 0x10000 = (unat c - 0xD800) * 0x400 + (unat d - 0xDC00)"
    by (simp add: UTF16SurrogatePairToCodePoint_def)
  have "unat d - 0xDC00 < 0x400" using d by linarith
  then have "(?cp - 0x10000) div 0x400 = unat c - 0xD800"
    and "(?cp - 0x10000) mod 0x400 = unat d - 0xDC00"
    unfolding cp by simp_all
  then have n: "(?cp - 0x10000) div 0x400 + 0xD800 = unat c"
    "(?cp - 0x10000) mod 0x400 + 0xDC00 = unat d"
    using c d by linarith+
  have "(of_nat ((?cp - 0x10000) div 0x400 + 0xD800) :: 16 word) = of_nat (unat c)"
    by (simp only: n)
  then have e1: "(of_nat ((?cp - 0x10000) div 0x400 + 0xD800) :: 16 word) = c"
    by simp
  have "(of_nat ((?cp - 0x10000) mod 0x400 + 0xDC00) :: 16 word) = of_nat (unat d)"
    by (simp only: n)
  then have e2: "(of_nat ((?cp - 0x10000) mod 0x400 + 0xDC00) :: 16 word) = d"
    by simp
  have big: "\<not> ?cp \<le> 0xFFFF"
    by (simp add: UTF16SurrogatePairToCodePoint_def)
  show ?thesis
    by (simp only: UTF16EncodeCodePoint_def big if_False e1 e2)
qed

lemma pair_range:
  assumes "isLeadingSurrogate c" and "isTrailingSurrogate d"
  shows "0x10000 \<le> UTF16SurrogatePairToCodePoint c d"
    and "UTF16SurrogatePairToCodePoint c d \<le> 0x10FFFF"
proof -
  have "0xD800 \<le> unat c" "unat c \<le> 0xDBFF" "0xDC00 \<le> unat d" "unat d \<le> 0xDFFF"
    using assms by (simp_all add: isLeadingSurrogate_def isTrailingSurrogate_def)
  then show "0x10000 \<le> UTF16SurrogatePairToCodePoint c d"
    and "UTF16SurrogatePairToCodePoint c d \<le> 0x10FFFF"
    unfolding UTF16SurrogatePairToCodePoint_def by linarith+
qed

lemma Decode_escapeCodePoint:
  assumes "cp \<le> 0x10FFFF" and "cp < 0xD800 \<or> 0xDFFF < cp"
  shows "Decode (escapeCodePoint cp @ t) = append_result (UTF16EncodeCodePoint cp) (Decode t)"
proof -
  consider "cp < 0x80" | "0x80 \<le> cp" "cp < 0x800" | "0x800 \<le> cp" "cp < 0x10000"
    | "0x10000 \<le> cp"
    by linarith
  then show ?thesis
  proof cases
    case 1
    then have "escapeCodePoint cp = percentEscape cp"
      by (simp add: escapeCodePoint_def utf8Encode_def)
    moreover have "UTF16EncodeCodePoint cp = [of_nat cp]"
      using 1 by (simp add: UTF16EncodeCodePoint_def)
    ultimately show ?thesis
      using Decode_escape_ascii [OF 1] by simp
  next
    case 2
    note f = utf8_two [OF 2]
    show ?thesis
      unfolding escapeCodePoint_def f(1)
      by (rule Decode_escape_multi) (use f in \<open>simp_all del: utf8Decode.simps\<close>)
  next
    case 3
    note f = utf8_three [OF 3 assms(2)]
    show ?thesis
      unfolding escapeCodePoint_def f(1)
      by (rule Decode_escape_multi) (use f in \<open>simp_all del: utf8Decode.simps\<close>)
  next
    case 4
    note f = utf8_four [OF 4 assms(1)]
    show ?thesis
      unfolding escapeCodePoint_def f(1)
      by (rule Decode_escape_multi) (use f in \<open>simp_all del: utf8Decode.simps\<close>)
  qed
qed

lemma percent_not_unescaped: "uriUnescaped c \<Longrightarrow> c \<noteq> 0x25"
  by (auto simp: uriUnescaped_def)

lemma Decode_Encode: "Encode s = Inr t \<Longrightarrow> Decode t = Inr s"
proof (induction "length s" arbitrary: s t rule: less_induct)
  case less
  show ?case
  proof (cases s)
    case Nil
    with less.prems show ?thesis by simp
  next
    case (Cons c rest)
    note s = Cons
    show ?thesis
    proof (cases "uriUnescaped c")
      case True
      with less.prems s obtain t' where t': "Encode rest = Inr t'" "t = c # t'"
        by (auto simp: append_result_Inr)
      have "Decode t' = Inr rest"
        using less.hyps [of rest t'] t' s by simp
      then show ?thesis
        using t' s percent_not_unescaped [OF True] by (simp add: append_result_def)
    next
      case False
      note esc = False
      show ?thesis
      proof (cases "isLeadingSurrogate c")
        case True
        with less.prems s esc obtain d rest' t' where
          r: "rest = d # rest'" "isTrailingSurrogate d" "Encode rest' = Inr t'"
            "t = escapeCodePoint (UTF16SurrogatePairToCodePoint c d) @ t'"
          by (auto simp: append_result_Inr split: list.splits if_splits)
        have "Decode t' = Inr rest'"
          using less.hyps [of rest' t'] r s by simp
        moreover have "Decode t =
            append_result (UTF16EncodeCodePoint (UTF16SurrogatePairToCodePoint c d)) (Decode t')"
          unfolding r(4) using pair_range [OF True r(2)]
          by (intro Decode_escapeCodePoint) simp_all
        ultimately show ?thesis
          using UTF16_pair [OF True r(2)] s r(1) by (simp add: append_result_def)
      next
        case False
        with less.prems s esc obtain t' where
          r: "\<not> isTrailingSurrogate c" "Encode rest = Inr t'" "t = escapeCodePoint (unat c) @ t'"
          by (auto simp: append_result_Inr split: if_splits)
        have "Decode t' = Inr rest"
          using less.hyps [of rest t'] r s by simp
        moreover have "unat c < 0xD800 \<or> 0xDFFF < unat c"
          using False r(1) by (auto simp: isLeadingSurrogate_def isTrailingSurrogate_def)
        then have "Decode t = append_result (UTF16EncodeCodePoint (unat c)) (Decode t')"
          unfolding r(3) using unat_16_bound [of c]
          by (intro Decode_escapeCodePoint) simp_all
        ultimately show ?thesis
          using UTF16_single [of c] s by (simp add: append_result_def)
      qed
    qed
  qed
qed

lemma delimiter_units: "js ''___'' = [0x5F, 0x5F, 0x5F]"
  by (simp add: js_def)

lemma split_from_no_match:
  "\<not> includesStr e sep \<Longrightarrow> split_from sep acc e = [acc @ e]"
  by (induction e arbitrary: acc) simp_all

lemma split_from_segment:
  assumes "\<not> includesStr e [0x5F, 0x5F, 0x5F]" and "e = [] \<or> last e \<noteq> 0x5F"
  shows "split_from [0x5F, 0x5F, 0x5F] acc (e @ [0x5F, 0x5F, 0x5F] @ rest) =
         (acc @ e) # split_from [0x5F, 0x5F, 0x5F] [] rest"
  using assms
proof (induction e arbitrary: acc)
  case Nil
  show ?case by (simp add: startsWith_def)
next
  case (Cons c cs)
  have no: "\<not> startsWith (c # cs @ [0x5F, 0x5F, 0x5F] @ rest) [0x5F, 0x5F, 0x5F]"
  proof (cases cs)
    case Nil
    with Cons.prems show ?thesis by (simp add: startsWith_def)
  next
    case (Cons d ds)
    note cs = Cons
    show ?thesis
    proof (cases ds)
      case Nil
      with cs Cons.prems show ?thesis by (simp add: startsWith_def)
    next
      case (Cons f fs)
      with cs Cons.prems show ?thesis by (simp add: startsWith_def)
    qed
  qed
  have "\<not> includesStr cs [0x5F, 0x5F, 0x5F]" and "cs = [] \<or> last cs \<noteq> 0x5F"
    using Cons.prems by (auto split: if_splits)
  then have "split_from [0x5F, 0x5F, 0x5F] (acc @ [c]) (cs @ [0x5F, 0x5F, 0x5F] @ rest) =
      ((acc @ [c]) @ cs) # split_from [0x5F, 0x5F, 0x5F] [] rest"
    by (rule Cons.IH)
  with no show ?case by simp
qed

lemma split_from_join:
  assumes "es \<noteq> []"
    and "\<forall>e \<in> set es. \<not> includesStr e [0x5F, 0x5F, 0x5F]"
    and "\<forall>e \<in> set (butlast es). e = [] \<or> last e \<noteq> 0x5F"
  shows "split_from [0x5F, 0x5F, 0x5F] [] (join [0x5F, 0x5F, 0x5F] es) = es"
  using assms
proof (induction es)
  case Nil
  then show ?case by simp
next
  case (Cons x xs)
  show ?case
  proof (cases xs)
    case Nil
    with Cons.prems show ?thesis by (simp add: split_from_no_match)
  next
    case (Cons y ys)
    with Cons.prems Cons.IH
    have "split_from [0x5F, 0x5F, 0x5F] [] (join [0x5F, 0x5F, 0x5F] xs) = xs"
      by simp
    moreover have "\<not> includesStr x [0x5F, 0x5F, 0x5F]" "x = [] \<or> last x \<noteq> 0x5F"
      using Cons.prems Cons by simp_all
    ultimately show ?thesis
      using split_from_segment [of x "[]" "join [0x5F, 0x5F, 0x5F] xs"] Cons by simp
  qed
qed

lemma utf8Encode_bytes:
  assumes "cp \<le> 0x10FFFF"
  shows "\<forall>b \<in> set (utf8Encode cp). b < 256" and "utf8Encode cp \<noteq> []"
  using assms by (auto simp: utf8Encode_def)

lemma percentEscape_no_underscore: "b < 256 \<Longrightarrow> 0x5F \<notin> set (percentEscape b)"
  by (simp add: percentEscape_def hexChar_not_underscore [symmetric])

lemma escapes_no_underscore:
  "\<forall>b \<in> set bs. b < 256 \<Longrightarrow> 0x5F \<notin> set (concat (map percentEscape bs))"
  by (induction bs) (simp_all add: percentEscape_no_underscore)

lemma escapeCodePoint_shape:
  assumes "cp \<le> 0x10FFFF"
  shows "escapeCodePoint cp \<noteq> []" and "0x5F \<notin> set (escapeCodePoint cp)"
proof -
  show "escapeCodePoint cp \<noteq> []"
    using utf8Encode_bytes(2) [OF assms]
    by (cases "utf8Encode cp") (simp_all add: escapeCodePoint_def percentEscape_def)
  show "0x5F \<notin> set (escapeCodePoint cp)"
    unfolding escapeCodePoint_def
    by (rule escapes_no_underscore) (rule utf8Encode_bytes(1) [OF assms])
qed

lemma Encode_ConsE:
  assumes "Encode (c # rest) = Inr e"
  obtains (plain) t' where "uriUnescaped c" "Encode rest = Inr t'" "e = c # t'"
  | (escaped) p t' rest' where "e = p @ t'" "p \<noteq> []" "0x5F \<notin> set p" "c \<noteq> 0x5F"
      "Encode rest' = Inr t'" "rest' = rest \<or> (\<exists>d. rest = d # rest')"
proof (cases "uriUnescaped c")
  case True
  with assms obtain t' where "Encode rest = Inr t'" "e = c # t'"
    by (auto simp: append_result_Inr)
  with True show ?thesis by (rule plain)
next
  case False
  then have c: "c \<noteq> 0x5F"
    by (auto simp: uriUnescaped_def)
  show ?thesis
  proof (cases "isLeadingSurrogate c")
    case True
    with assms False obtain d rest' t' where
      r: "rest = d # rest'" "isTrailingSurrogate d" "Encode rest' = Inr t'"
        "e = escapeCodePoint (UTF16SurrogatePairToCodePoint c d) @ t'"
      by (auto simp: append_result_Inr split: list.splits if_splits)
    show ?thesis
      using r(4) escapeCodePoint_shape [OF pair_range(2) [OF True r(2)]] c r(3)
    proof (rule escaped)
      show "rest' = rest \<or> (\<exists>d. rest = d # rest')" using r(1) by simp
    qed
  next
    case lead: False
    with assms False obtain t' where
      r: "Encode rest = Inr t'" "e = escapeCodePoint (unat c) @ t'"
      by (auto simp: append_result_Inr split: if_splits)
    have "unat c \<le> 0x10FFFF"
      using unat_16_bound [of c] by simp
    then show ?thesis
      using r(2) escapeCodePoint_shape [of "unat c"] c r(1)
      by (intro escaped [of "escapeCodePoint (unat c)" t' rest]) simp_all
  qed
qed

lemma Encode_nonempty: "Encode s = Inr e \<Longrightarrow> s \<noteq> [] \<Longrightarrow> e \<noteq> []"
  by (cases s) (auto elim!: Encode_ConsE simp del: Encode.simps)

lemma Encode_head_underscore:
  assumes "Encode s = Inr (0x5F # e)"
  obtains s' where "s = 0x5F # s'" "Encode s' = Inr e"
proof (cases s)
  case Nil
  with assms show ?thesis by simp
next
  case (Cons c rest)
  from assms [unfolded Cons] show ?thesis
  proof (cases rule: Encode_ConsE)
    case (plain t')
    with Cons that show ?thesis by simp
  next
    case (escaped p t' rest')
    then have "hd p = 0x5F"
      by (cases p) simp_all
    with escaped(2,3) show ?thesis
      by (cases p) simp_all
  qed
qed

lemma includesStr_skip:
  "0x5F \<notin> set p \<Longrightarrow> includesStr (p @ t) [0x5F, 0x5F, 0x5F] = includesStr t [0x5F, 0x5F, 0x5F]"
  by (induction p) (auto simp: startsWith_def)

lemma includesStr_Cons: "includesStr t sep \<Longrightarrow> includesStr (c # t) sep"
  by simp

lemma Encode_delimiter:
  "Encode s = Inr e \<Longrightarrow> includesStr e [0x5F, 0x5F, 0x5F] \<Longrightarrow> includesStr s [0x5F, 0x5F, 0x5F]"
proof (induction "length s" arbitrary: s e rule: less_induct)
  case less
  show ?case
  proof (cases s)
    case Nil
    with less.prems show ?thesis by simp
  next
    case (Cons c rest)
    from less.prems(1) [unfolded Cons] show ?thesis
    proof (cases rule: Encode_ConsE)
      case (plain t')
      show ?thesis
      proof (cases "includesStr t' [0x5F, 0x5F, 0x5F]")
        case True
        then have "includesStr rest [0x5F, 0x5F, 0x5F]"
          using less.hyps [of rest t'] plain(2) Cons by simp
        then show ?thesis using Cons by simp
      next
        case False
        with less.prems(2) plain(3) have "startsWith (c # t') [0x5F, 0x5F, 0x5F]"
          by simp
        then obtain t'' where t: "c = 0x5F" "t' = 0x5F # 0x5F # t''"
          by (cases t'; cases "tl t'") (auto simp: startsWith_def)
        from plain(2) [unfolded t(2)] obtain r1 where r1: "rest = 0x5F # r1"
          "Encode r1 = Inr (0x5F # t'')"
          by (rule Encode_head_underscore)
        from r1(2) obtain r2 where "r1 = 0x5F # r2" "Encode r2 = Inr t''"
          by (rule Encode_head_underscore)
        with r1(1) t(1) Cons show ?thesis
          by (simp add: startsWith_def)
      qed
    next
      case (escaped p t' rest')
      with less.prems(2) have "includesStr t' [0x5F, 0x5F, 0x5F]"
        by (simp add: includesStr_skip)
      moreover have "length rest' < length s"
        using escaped(6) Cons by auto
      ultimately have "includesStr rest' [0x5F, 0x5F, 0x5F]"
        using less.hyps [of rest' t'] escaped(5) by simp
      then show ?thesis
        using escaped(6) Cons by auto
    qed
  qed
qed

lemma Encode_trailing:
  "Encode s = Inr e \<Longrightarrow> s = [] \<or> last s \<noteq> 0x5F \<Longrightarrow> e = [] \<or> last e \<noteq> 0x5F"
proof (induction "length s" arbitrary: s e rule: less_induct)
  case less
  show ?case
  proof (cases s)
    case Nil
    with less.prems show ?thesis by simp
  next
    case (Cons c rest)
    from less.prems(1) [unfolded Cons] show ?thesis
    proof (cases rule: Encode_ConsE)
      case (plain t')
      show ?thesis
      proof (cases "rest = []")
        case True
        with plain less.prems(2) Cons show ?thesis by simp
      next
        case False
        then have "t' \<noteq> []"
          using plain(2) by (auto dest: Encode_nonempty)
        moreover have "t' = [] \<or> last t' \<noteq> 0x5F"
          using less.hyps [of rest t'] plain(2) less.prems(2) Cons False by simp
        ultimately show ?thesis using plain(3) by simp
      qed
    next
      case (escaped p t' rest')
      show ?thesis
      proof (cases "t' = []")
        case True
        with escaped(1,2,3) show ?thesis
          by (metis append_Nil2 last_in_set)
      next
        case False
        then have ne: "rest' \<noteq> []"
          using escaped(5) by auto
        have "last s = last rest'"
          using escaped(6) Cons ne by auto
        moreover have "length rest' < length s"
          using escaped(6) Cons by auto
        ultimately have "t' = [] \<or> last t' \<noteq> 0x5F"
          using less.hyps [of rest' t'] escaped(5) less.prems(2) ne Cons by simp
        with False escaped(1) show ?thesis by simp
      qed
    qed
  qed
qed

lemma mapEncode_all2:
  "mapEncode segs = Inr es \<Longrightarrow> list_all2 (\<lambda>s e. Encode s = Inr e) segs es"
  by (induction segs arbitrary: es) (auto simp: encodeURIComponent_def split: sum.splits)

lemma mapDecode_all2:
  "list_all2 (\<lambda>s e. Encode s = Inr e) segs es \<Longrightarrow> mapDecode es = Inr segs"
  by (induction rule: list_all2_induct) (simp_all add: decodeURIComponent_def Decode_Encode)

lemma encoded_no_delimiter:
  "list_all2 (\<lambda>s e. Encode s = Inr e) segs es \<Longrightarrow>
   \<forall>s \<in> set segs. \<not> includesStr s [0x5F, 0x5F, 0x5F] \<Longrightarrow>
   \<forall>e \<in> set es. \<not> includesStr e [0x5F, 0x5F, 0x5F]"
  by (induction rule: list_all2_induct) (auto dest: Encode_delimiter)

lemma encoded_no_trailing:
  "list_all2 (\<lambda>s e. Encode s = Inr e) segs es \<Longrightarrow>
   \<forall>s \<in> set (butlast segs). s = [] \<or> last s \<noteq> 0x5F \<Longrightarrow>
   \<forall>e \<in> set (butlast es). e = [] \<or> last e \<noteq> 0x5F"
proof (induction rule: list_all2_induct)
  case Nil
  then show ?case by simp
next
  case (Cons s segs e es)
  show ?case
  proof (cases "segs = []")
    case True
    with Cons.hyps show ?thesis by simp
  next
    case False
    then have "es \<noteq> []"
      using Cons.hyps(2) by auto
    moreover have "e = [] \<or> last e \<noteq> 0x5F"
      using Cons.hyps(1) Cons.prems False by (auto dest: Encode_trailing)
    moreover have "\<forall>e \<in> set (butlast es). e = [] \<or> last e \<noteq> 0x5F"
      using Cons.IH Cons.prems False by simp
    ultimately show ?thesis by simp
  qed
qed

section \<open>Rate limiting\<close>

text \<open>
  Claim C8. When the rate limiter rejects the request, the handler answers 429 with
  the throttling message as a string body and its only call to a collaborator is
  the rate-limit check: whatever the key parameter and the object store are, the
  key is not decoded, no path is checked and the store is not called.
\<close>

theorem rate_limited_429:
  assumes "\<not> allowed (checkRateLimit (rateLimitKey ctx)
             (orElse (RATE_LIMIT_REQUESTS ctx) (Num 50))
             (orElse (RATE_LIMIT_WINDOW_MS ctx) (Num 60000)))"
  shows "onRequestGet checkRateLimit ctx =
           (Inr \<lparr>status = 429, headers = [], payload = Text msgRateLimited\<rparr>,
            [rateLimitCall ctx])
         \<and> storeCalls (snd (onRequestGet checkRateLimit ctx)) = []"
  using assms by (simp add: onRequestGet_def storeCalls_def rateLimitCall_def)

text \<open>
  The hypothesis holds for a limiter that rejects; the token \<^verbatim>\<open>%\<close> of this request
  cannot be decoded, and the answer is 429 all the same.
\<close>

theorem rate_limited_429_witness:
  "\<not> allowed (rejectAll (rateLimitKey (request (js ''%'') None None))
       (orElse (RATE_LIMIT_REQUESTS (request (js ''%'') None None)) (Num 50))
       (orElse (RATE_LIMIT_WINDOW_MS (request (js ''%'') None None)) (Num 60000)))
   \<and> onRequestGet rejectAll (request (js ''%'') None None) =
       (Inr \<lparr>status = 429, headers = [], payload = Text msgRateLimited\<rparr>,
        [CheckRateLimit (js ''r2:203.0.113.7'') (Num 50) (Num 60000)])
   \<and> storeCalls (snd (onRequestGet rejectAll (request (js ''%'') None None))) = []"
proof -
  have call: "rateLimitCall (request (js ''%'') None None) =
      CheckRateLimit (js ''r2:203.0.113.7'') (Num 50) (Num 60000)"
    by (simp add: rateLimitCall_def rateLimitKey_def request_def orElse_def js_def)
  have rejected: "\<not> allowed (rejectAll (rateLimitKey (request (js ''%'') None None))
       (orElse (RATE_LIMIT_REQUESTS (request (js ''%'') None None)) (Num 50))
       (orElse (RATE_LIMIT_WINDOW_MS (request (js ''%'') None None)) (Num 60000)))"
    by (simp add: rejectAll_def)
  from rate_limited_429 [of rejectAll "request (js ''%'') None None", OF rejected]
    rejected call show ?thesis
    by (simp add: storeCalls_def)
qed

text \<open>
  Claim C10, as the handler implements it. A falsy configured request limit (unset,
  the number 0, the empty string) makes the handler ask the limiter for 50
  requests, a falsy configured window for 60000 ms, and the handler never passes
  the number 0 as the limit or as the window. A truthy configured value, a
  non-empty string among them, is passed to the limiter as it is.
\<close>

theorem falsy_limits_default:
  "(\<not> truthy (RATE_LIMIT_REQUESTS ctx) \<longrightarrow>
      (\<exists>k w rest. snd (onRequestGet chk ctx) = CheckRateLimit k (Num 50) w # rest))
   \<and> (\<not> truthy (RATE_LIMIT_WINDOW_MS ctx) \<longrightarrow>
      (\<exists>k l rest. snd (onRequestGet chk ctx) = CheckRateLimit k l (Num 60000) # rest))
   \<and> (truthy (RATE_LIMIT_REQUESTS ctx) \<longrightarrow>
      (\<exists>k w rest. snd (onRequestGet chk ctx) =
         CheckRateLimit k (RATE_LIMIT_REQUESTS ctx) w # rest))
   \<and> (truthy (RATE_LIMIT_WINDOW_MS ctx) \<longrightarrow>
      (\<exists>k l rest. snd (onRequestGet chk ctx) =
         CheckRateLimit k l (RATE_LIMIT_WINDOW_MS ctx) # rest))
   \<and> (\<forall>k w rest. snd (onRequestGet chk ctx) \<noteq> CheckRateLimit k (Num 0) w # rest)
   \<and> (\<forall>k l rest. snd (onRequestGet chk ctx) \<noteq> CheckRateLimit k l (Num 0) # rest)"
proof -
  obtain rest where t: "snd (onRequestGet chk ctx) = rateLimitCall ctx # rest"
    using trace_starts_with_rate_limit by blast
  have "orElse (RATE_LIMIT_REQUESTS ctx) (Num 50) \<noteq> Num 0"
    and "orElse (RATE_LIMIT_WINDOW_MS ctx) (Num 60000) \<noteq> Num 0"
    by (simp_all add: orElse_nonzero)
  with t show ?thesis
    by (auto simp: rateLimitCall_def orElse_falsy orElse_truthy)
qed

theorem falsy_limits_default_witness:
  "\<not> truthy (RATE_LIMIT_REQUESTS zeroLimits) \<and> \<not> truthy (RATE_LIMIT_WINDOW_MS zeroLimits)
   \<and> (\<exists>k w rest. snd (onRequestGet allowAll zeroLimits) = CheckRateLimit k (Num 50) w # rest)
   \<and> (\<exists>k l rest. snd (onRequestGet allowAll zeroLimits) = CheckRateLimit k l (Num 60000) # rest)
   \<and> truthy (RATE_LIMIT_REQUESTS stringZeroLimit)
   \<and> truthy (RATE_LIMIT_WINDOW_MS stringZeroLimit)
   \<and> (\<exists>k w rest. snd (onRequestGet allowAll stringZeroLimit) =
         CheckRateLimit k (Str (js ''0'')) w # rest)
   \<and> (\<exists>k l rest. snd (onRequestGet allowAll stringZeroLimit) =
         CheckRateLimit k l (Num 1000) # rest)"
proof -
  have falsy: "\<not> truthy (RATE_LIMIT_REQUESTS zeroLimits)"
    "\<not> truthy (RATE_LIMIT_WINDOW_MS zeroLimits)"
    by (simp_all add: zeroLimits_def)
  have cfg: "RATE_LIMIT_REQUESTS stringZeroLimit = Str (js ''0'')"
    "RATE_LIMIT_WINDOW_MS stringZeroLimit = Num 1000"
    by (simp_all add: stringZeroLimit_def)
  have "js ''0'' \<noteq> []"
    by (simp add: js_def)
  then have set: "truthy (RATE_LIMIT_REQUESTS stringZeroLimit)"
    "truthy (RATE_LIMIT_WINDOW_MS stringZeroLimit)"
    by (simp_all add: cfg)
  from falsy_limits_default [of zeroLimits allowAll] falsy
  have "(\<exists>k w rest. snd (onRequestGet allowAll zeroLimits) = CheckRateLimit k (Num 50) w # rest)
      \<and> (\<exists>k l rest. snd (onRequestGet allowAll zeroLimits) =
            CheckRateLimit k l (Num 60000) # rest)"
    by blast
  moreover from falsy_limits_default [of stringZeroLimit allowAll] set
  have "(\<exists>k w rest. snd (onRequestGet allowAll stringZeroLimit) =
           CheckRateLimit k (RATE_LIMIT_REQUESTS stringZeroLimit) w # rest)
      \<and> (\<exists>k l rest. snd (onRequestGet allowAll stringZeroLimit) =
            CheckRateLimit k l (RATE_LIMIT_WINDOW_MS stringZeroLimit) # rest)"
    by blast
  ultimately show ?thesis
    using falsy set by (simp only: cfg simp_thms)
qed

text \<open>
  Claim C10 as stated fails. The claim concludes that a deployment cannot configure
  a limit of zero requests. The string \<^verbatim>\<open>"0"\<close> is truthy, so a deployment that
  configures it has the handler ask the limiter for \<^verbatim>\<open>"0"\<close> requests, not for 50.
\<close>

theorem string_zero_limit_counterexample:
  "RATE_LIMIT_REQUESTS stringZeroLimit = Str (js ''0'')
   \<and> truthy (Str (js ''0''))
   \<and> snd (onRequestGet allowAll stringZeroLimit) =
       [CheckRateLimit (js ''r2:unknown'') (Str (js ''0'')) (Num 1000),
        R2Get (js ''photos/cat.png'')]"
proof -
  have v: "RATE_LIMIT_REQUESTS stringZeroLimit = Str (js ''0'')"
    by (simp add: stringZeroLimit_def)
  have ne: "js ''0'' \<noteq> []"
    by (simp add: js_def)
  have c: "rateLimitCall stringZeroLimit =
      CheckRateLimit (js ''r2:unknown'') (Str (js ''0'')) (Num 1000)"
    by (simp add: rateLimitCall_def rateLimitKey_def stringZeroLimit_def orElse_def js_def)
  have h2: "decodeKey (paramsKey stringZeroLimit) = Inr (js ''photos/cat.png'')"
    by (simp add: stringZeroLimit_def decode_tokens)
  have h4: "R2 stringZeroLimit (js ''photos/cat.png'') = Some pngObject"
    by (simp add: stringZeroLimit_def store_examples)
  have "snd (onRequestGet allowAll stringZeroLimit) =
       [CheckRateLimit (js ''r2:unknown'') (Str (js ''0'')) (Num 1000),
        R2Get (js ''photos/cat.png'')]"
    using c h2 h4 by (simp add: onRequestGet_def allowAll_def rejected_examples)
  with v ne show ?thesis by simp
qed

text \<open>The same request evaluated: the limiter is asked for 50 requests in 60000 ms.\<close>

lemma zero_limits_trace:
  "snd (onRequestGet allowAll zeroLimits) =
     [CheckRateLimit (js ''r2:unknown'') (Num 50) (Num 60000), R2Get (js ''photos/cat.png'')]"
proof -
  have call: "rateLimitCall zeroLimits = CheckRateLimit (js ''r2:unknown'') (Num 50) (Num 60000)"
    by (simp add: rateLimitCall_def rateLimitKey_def zeroLimits_def orElse_def js_def)
  have h2: "decodeKey (paramsKey zeroLimits) = Inr (js ''photos/cat.png'')"
    by (simp add: zeroLimits_def decode_tokens)
  have h4: "R2 zeroLimits (js ''photos/cat.png'') = Some pngObject"
    by (simp add: zeroLimits_def store_examples)
  show ?thesis
    using call h2 h4 by (simp add: onRequestGet_def allowAll_def rejected_examples)
qed

section \<open>Key decoding and the path check\<close>

text \<open>
  What the check of line 22 does stop. When the limiter allows the request and the
  token decodes to a path that contains \<^verbatim>\<open>../\<close>, contains \<^verbatim>\<open>..\<close> followed by a
  backslash, or starts with \<^verbatim>\<open>/\<close>, the handler answers 400 and calls the object
  store zero times.
\<close>

theorem traversal_rejected:
  assumes "allowed (chk (rateLimitKey ctx)
             (orElse (RATE_LIMIT_REQUESTS ctx) (Num 50))
             (orElse (RATE_LIMIT_WINDOW_MS ctx) (Num 60000)))"
    and "decodeKey (paramsKey ctx) = Inr key"
    and "includesStr key (js ''../'') \<or> includesStr key [0x2E, 0x2E, 0x5C]
         \<or> startsWith key (js ''/'')"
  shows "onRequestGet chk ctx =
           (Inr \<lparr>status = 400, headers = [], payload = Text msgInvalidPath\<rparr>,
            [rateLimitCall ctx])
         \<and> storeCalls (snd (onRequestGet chk ctx)) = []"
  using assms
  by (simp add: onRequestGet_def rejectedPath_def storeCalls_def rateLimitCall_def)

theorem traversal_rejected_witness:
  "allowed (allowAll (rateLimitKey (request (js ''..___etc'') None None))
     (orElse (RATE_LIMIT_REQUESTS (request (js ''..___etc'') None None)) (Num 50))
     (orElse (RATE_LIMIT_WINDOW_MS (request (js ''..___etc'') None None)) (Num 60000)))
   \<and> decodeKey (paramsKey (request (js ''..___etc'') None None)) = Inr (js ''../etc'')
   \<and> includesStr (js ''../etc'') (js ''../'')
   \<and> onRequestGet allowAll (request (js ''..___etc'') None None) =
       (Inr \<lparr>status = 400, headers = [], payload = Text msgInvalidPath\<rparr>,
        [CheckRateLimit (js ''r2:203.0.113.7'') (Num 50) (Num 60000)])
   \<and> storeCalls (snd (onRequestGet allowAll (request (js ''..___etc'') None None))) = []"
proof -
  let ?ctx = "request (js ''..___etc'') None None"
  have h2: "decodeKey (paramsKey ?ctx) = Inr (js ''../etc'')"
    by (simp add: request_def decode_more_tokens)
  have i: "includesStr (js ''../etc'') (js ''../'')"
    by (simp add: js_def startsWith_def)
  then have h3: "includesStr (js ''../etc'') (js ''../'')
      \<or> includesStr (js ''../etc'') [0x2E, 0x2E, 0x5C] \<or> startsWith (js ''../etc'') (js ''/'')"
    by simp
  from traversal_rejected [of allowAll ?ctx, OF example_allowed h2 h3]
    example_allowed [of ?ctx] h2 i example_rate_limit_call
  show ?thesis by (simp add: storeCalls_def)
qed

text \<open>
  Claim C2 asks that every token whose decoded path has a \<^verbatim>\<open>..\<close> segment, or a
  backslash followed by two dots, is answered 400 before any call to the object
  store. The check of line 22, which its comment gives as the guard against path
  traversal, looks for \<^verbatim>\<open>../\<close> and so misses a \<^verbatim>\<open>..\<close> segment that ends the path:
  the tokens \<^verbatim>\<open>..\<close> and \<^verbatim>\<open>a___..\<close> decode to the paths \<^verbatim>\<open>..\<close> and \<^verbatim>\<open>a/..\<close>, which the
  handler looks up in the object store and answers 404. The same happens to the
  token \<^verbatim>\<open>a%5C..\<close>, whose path holds a backslash followed by two dots.
\<close>

theorem trailing_dotdot_reaches_store:
  "decodeKey (js ''..'') = Inr (js ''..'')
   \<and> hasDotDotSegment (js ''..'')
   \<and> onRequestGet allowAll (request (js ''..'') None None) =
       (Inr \<lparr>status = 404, headers = [], payload = Text msgNotFound\<rparr>,
        [CheckRateLimit (js ''r2:203.0.113.7'') (Num 50) (Num 60000), R2Get (js ''..'')])
   \<and> decodeKey (js ''a___..'') = Inr (js ''a/..'')
   \<and> hasDotDotSegment (js ''a/..'')
   \<and> onRequestGet allowAll (request (js ''a___..'') None None) =
       (Inr \<lparr>status = 404, headers = [], payload = Text msgNotFound\<rparr>,
        [CheckRateLimit (js ''r2:203.0.113.7'') (Num 50) (Num 60000), R2Get (js ''a/..'')])
   \<and> decodeKey (js ''a%5C..'') = Inr [0x61, 0x5C, 0x2E, 0x2E]
   \<and> includesStr [0x61, 0x5C, 0x2E, 0x2E] [0x5C, 0x2E, 0x2E]
   \<and> onRequestGet allowAll (request (js ''a%5C..'') None None) =
       (Inr \<lparr>status = 404, headers = [], payload = Text msgNotFound\<rparr>,
        [CheckRateLimit (js ''r2:203.0.113.7'') (Num 50) (Num 60000),
         R2Get [0x61, 0x5C, 0x2E, 0x2E]])"
proof -
  have d0: "decodeKey (js ''..'') = Inr (js ''..'')"
    by (simp add: decodeKey_def decodeSegments_def split_def js_def startsWith_def
        decodeURIComponent_def append_result_def)
  have n0: "\<not> rejectedPath (js ''..'')"
    by (simp add: rejectedPath_def js_def startsWith_def)
  have s0: "exampleStore (js ''..'') = None"
    by (simp add: exampleStore_def js_def)
  have seg0: "hasDotDotSegment (js ''..'')"
    by (simp add: hasDotDotSegment_def split_def js_def startsWith_def)
  have seg: "hasDotDotSegment (js ''a/..'')"
    by (simp add: hasDotDotSegment_def split_def js_def startsWith_def)
  have inc: "includesStr [0x61, 0x5C, 0x2E, 0x2E] [0x5C, 0x2E, 0x2E]"
    by (simp add: startsWith_def)
  have r0: "onRequestGet allowAll (request (js ''..'') None None) =
       (Inr \<lparr>status = 404, headers = [], payload = Text msgNotFound\<rparr>,
        [rateLimitCall (request (js ''..'') None None), R2Get (js ''..'')])"
    by (simp add: onRequestGet_def allowAll_def request_def d0 n0 s0)
  have r1: "onRequestGet allowAll (request (js ''a___..'') None None) =
       (Inr \<lparr>status = 404, headers = [], payload = Text msgNotFound\<rparr>,
        [rateLimitCall (request (js ''a___..'') None None), R2Get (js ''a/..'')])"
    by (simp add: onRequestGet_def allowAll_def request_def decode_tokens rejected_examples
        store_examples)
  have r2: "onRequestGet allowAll (request (js ''a%5C..'') None None) =
       (Inr \<lparr>status = 404, headers = [], payload = Text msgNotFound\<rparr>,
        [rateLimitCall (request (js ''a%5C..'') None None), R2Get [0x61, 0x5C, 0x2E, 0x2E]])"
    by (simp add: onRequestGet_def allowAll_def request_def decode_more_tokens
        rejected_examples store_examples)
  from d0 seg0 seg inc r0 r1 r2 decode_tokens(4) decode_more_tokens(2) example_rate_limit_call
  show ?thesis by simp
qed

text \<open>
  Claim C4 asks for status 400 on a token that cannot be decoded. The handler
  gives no response for the token \<^verbatim>\<open>%\<close>: the URIError of \<^verbatim>\<open>decodeURIComponent\<close>
  leaves it uncaught, after the rate-limit check and before any store call.
\<close>

theorem malformed_token_throws:
  "onRequestGet allowAll (request (js ''%'') None None) =
     (Inl URIError, [CheckRateLimit (js ''r2:203.0.113.7'') (Num 50) (Num 60000)])"
proof -
  have "decodeKey (paramsKey (request (js ''%'') None None)) = Inl URIError"
    by (simp add: request_def decode_tokens)
  then show ?thesis
    by (simp add: onRequestGet_def allowAll_def example_rate_limit_call)
qed

text \<open>
  Claim C3, as the code supports it. Take a non-empty sequence of segments whose
  encoding succeeds (no segment holds an unpaired surrogate), in which no segment
  contains \<^verbatim>\<open>___\<close> and no segment but the last ends with an underscore. Decoding
  the token (cutting it at \<^verbatim>\<open>___\<close> and decoding each piece) gives back exactly the
  segments, and the key of the handler is their join with \<^verbatim>\<open>/\<close>.
\<close>

theorem key_codec_round_trip:
  assumes "encodeKey segments = Inr token"
    and "segments \<noteq> []"
    and "\<forall>s \<in> set segments. \<not> includesStr s (js ''___'')"
    and "\<forall>s \<in> set (butlast segments). s = [] \<or> last s \<noteq> 0x5F"
  shows "decodeSegments token = Inr segments
         \<and> decodeKey token = Inr (join (js ''/'') segments)"
proof -
  from assms(1) obtain es where es: "mapEncode segments = Inr es"
    and token: "token = join [0x5F, 0x5F, 0x5F] es"
    by (auto simp: encodeKey_def delimiter_units split: sum.splits)
  have all2: "list_all2 (\<lambda>s e. Encode s = Inr e) segments es"
    using es by (rule mapEncode_all2)
  then have "es \<noteq> []"
    using assms(2) by auto
  moreover have "\<forall>e \<in> set es. \<not> includesStr e [0x5F, 0x5F, 0x5F]"
    using all2 assms(3) unfolding delimiter_units by (rule encoded_no_delimiter)
  moreover have "\<forall>e \<in> set (butlast es). e = [] \<or> last e \<noteq> 0x5F"
    using all2 assms(4) by (rule encoded_no_trailing)
  ultimately have "split_from [0x5F, 0x5F, 0x5F] [] token = es"
    unfolding token by (rule split_from_join)
  then have "split token (js ''___'') = es"
    by (simp add: split_def delimiter_units)
  then have "decodeSegments token = Inr segments"
    using mapDecode_all2 [OF all2] by (simp add: decodeSegments_def)
  then show ?thesis
    by (simp add: decodeKey_def)
qed

lemma example_encoding:
  "encodeKey [js ''my photos'', js ''_a/b'', [0x4F60]] =
     Inr (js ''my%20photos____a%2Fb___%E4%BD%A0'')"
  by (simp add: encodeKey_def encodeURIComponent_def uriUnescaped_def isLeadingSurrogate_def
      isTrailingSurrogate_def escapeCodePoint_def utf8Encode_def percentEscape_def hexChar_def
      append_result_def js_def)

theorem key_codec_round_trip_witness:
  "encodeKey [js ''my photos'', js ''_a/b'', [0x4F60]] =
     Inr (js ''my%20photos____a%2Fb___%E4%BD%A0'')
   \<and> \<not> includesStr (js ''my photos'') (js ''___'')
   \<and> \<not> includesStr (js ''_a/b'') (js ''___'')
   \<and> \<not> includesStr [0x4F60] (js ''___'')
   \<and> last (js ''my photos'') \<noteq> 0x5F
   \<and> last (js ''_a/b'') \<noteq> 0x5F
   \<and> decodeSegments (js ''my%20photos____a%2Fb___%E4%BD%A0'') =
       Inr [js ''my photos'', js ''_a/b'', [0x4F60]]
   \<and> decodeKey (js ''my%20photos____a%2Fb___%E4%BD%A0'') =
       Inr (js ''my photos/_a/b'' @ [0x2F, 0x4F60])"
proof -
  let ?segs = "[js ''my photos'', js ''_a/b'', [0x4F60]]"
  have inc: "\<not> includesStr (js ''my photos'') (js ''___'')"
    "\<not> includesStr (js ''_a/b'') (js ''___'')"
    "\<not> includesStr [0x4F60] (js ''___'')"
    by (simp_all add: js_def startsWith_def)
  have lst: "last (js ''my photos'') \<noteq> 0x5F" "last (js ''_a/b'') \<noteq> 0x5F"
    by (simp_all add: js_def)
  have h3: "\<forall>s \<in> set ?segs. \<not> includesStr s (js ''___'')"
    using inc by simp
  have h4: "\<forall>s \<in> set (butlast ?segs). s = [] \<or> last s \<noteq> 0x5F"
    using lst by simp
  have j: "join (js ''/'') ?segs = js ''my photos/_a/b'' @ [0x2F, 0x4F60]"
    by (simp add: js_def)
  from key_codec_round_trip [OF example_encoding _ h3 h4] example_encoding inc lst j
  show ?thesis by simp
qed

text \<open>
  Claim C3 as stated fails. \<^verbatim>\<open>encodeURIComponent\<close> leaves the underscore as it is, so
  the segments \<^verbatim>\<open>a_\<close> and \<^verbatim>\<open>b\<close>, neither of which contains the delimiter, are encoded
  as \<^verbatim>\<open>a____b\<close>, which is cut into \<^verbatim>\<open>a\<close> and \<^verbatim>\<open>_b\<close>. The empty sequence is encoded
  as the empty token, which decodes to one empty segment.
\<close>

theorem trailing_underscore_counterexample:
  "encodeKey [js ''a_'', js ''b''] = Inr (js ''a____b'')
   \<and> \<not> includesStr (js ''a_'') (js ''___'')
   \<and> \<not> includesStr (js ''b'') (js ''___'')
   \<and> \<not> rejectedPath (join (js ''/'') [js ''a_'', js ''b''])
   \<and> decodeSegments (js ''a____b'') = Inr [js ''a'', js ''_b'']
   \<and> [js ''a'', js ''_b''] \<noteq> [js ''a_'', js ''b'']
   \<and> encodeKey [] = Inr []
   \<and> decodeSegments [] = Inr [[]]"
proof -
  have "encodeKey [js ''a_'', js ''b''] = Inr (js ''a____b'')"
    by (simp add: encodeKey_def encodeURIComponent_def uriUnescaped_def append_result_def
        js_def)
  moreover have "\<not> includesStr (js ''a_'') (js ''___'')" "\<not> includesStr (js ''b'') (js ''___'')"
    by (simp_all add: js_def startsWith_def)
  moreover have "\<not> rejectedPath (join (js ''/'') [js ''a_'', js ''b''])"
    by (simp add: rejectedPath_def js_def startsWith_def)
  moreover have "decodeSegments (js ''a____b'') = Inr [js ''a'', js ''_b'']"
    by (simp add: decodeSegments_def split_def decodeURIComponent_def append_result_def
        js_def startsWith_def)
  moreover have "[js ''a'', js ''_b''] \<noteq> [js ''a_'', js ''b'']"
    by (simp add: js_def)
  moreover have "encodeKey [] = Inr []"
    by (simp add: encodeKey_def)
  moreover have "decodeSegments [] = Inr [[]]"
    by (simp add: decodeSegments_def split_def decodeURIComponent_def js_def)
  ultimately show ?thesis by simp
qed

section \<open>Content negotiation\<close>

text \<open>
  Claim C6. A request that carries a \<^verbatim>\<open>width\<close> or \<^verbatim>\<open>height\<close> parameter, for a stored
  object whose content type starts with \<^verbatim>\<open>image/\<close>, is answered 200 with the bytes
  of the object and its stored content type.
\<close>

theorem image_resize_passthrough:
  assumes "allowed (chk (rateLimitKey ctx)
             (orElse (RATE_LIMIT_REQUESTS ctx) (Num 50))
             (orElse (RATE_LIMIT_WINDOW_MS ctx) (Num 60000)))"
    and "decodeKey (paramsKey ctx) = Inr key"
    and "\<not> rejectedPath key"
    and "R2 ctx key = Some obj"
    and "width ctx \<noteq> None \<or> height ctx \<noteq> None"
    and "storedContentType obj = Some ct"
    and "startsWith ct (js ''image/'')"
  shows "onRequestGet chk ctx =
           (Inr \<lparr>status = 200,
                 headers = [(js ''content-type'', ct),
                            (js ''cache-control'', js ''public, max-age=31536000'')],
                 payload = ObjectBody (body obj)\<rparr>,
            [rateLimitCall ctx, R2Get key])"
proof -
  have "ct \<noteq> []"
    using assms(7) by (auto simp: startsWith_def js_def)
  with assms show ?thesis
    by (simp add: onRequestGet_def serveObject_def optStartsWith_def)
qed

theorem image_resize_passthrough_witness:
  "allowed (allowAll (rateLimitKey (request (js ''photos___cat.png'') (Some (js ''100'')) None))
     (orElse (RATE_LIMIT_REQUESTS (request (js ''photos___cat.png'') (Some (js ''100'')) None))
        (Num 50))
     (orElse (RATE_LIMIT_WINDOW_MS (request (js ''photos___cat.png'') (Some (js ''100'')) None))
        (Num 60000)))
   \<and> decodeKey (paramsKey (request (js ''photos___cat.png'') (Some (js ''100'')) None)) =
       Inr (js ''photos/cat.png'')
   \<and> \<not> rejectedPath (js ''photos/cat.png'')
   \<and> R2 (request (js ''photos___cat.png'') (Some (js ''100'')) None) (js ''photos/cat.png'') =
       Some pngObject
   \<and> width (request (js ''photos___cat.png'') (Some (js ''100'')) None) = Some (js ''100'')
   \<and> storedContentType pngObject = Some (js ''image/png'')
   \<and> startsWith (js ''image/png'') (js ''image/'')
   \<and> onRequestGet allowAll (request (js ''photos___cat.png'') (Some (js ''100'')) None) =
       (Inr \<lparr>status = 200,
             headers = [(js ''content-type'', js ''image/png''),
                        (js ''cache-control'', js ''public, max-age=31536000'')],
             payload = ObjectBody [0x89, 0x50, 0x4E, 0x47]\<rparr>,
        [CheckRateLimit (js ''r2:203.0.113.7'') (Num 50) (Num 60000),
         R2Get (js ''photos/cat.png'')])"
proof -
  let ?ctx = "request (js ''photos___cat.png'') (Some (js ''100'')) None"
  have h2: "decodeKey (paramsKey ?ctx) = Inr (js ''photos/cat.png'')"
    by (simp add: request_def decode_tokens)
  have h3: "\<not> rejectedPath (js ''photos/cat.png'')"
    by (rule rejected_examples)
  have h4: "R2 ?ctx (js ''photos/cat.png'') = Some pngObject"
    by (simp add: request_def store_examples)
  have w: "width ?ctx = Some (js ''100'')"
    by (simp add: request_def)
  then have h5: "width ?ctx \<noteq> None \<or> height ?ctx \<noteq> None"
    by simp
  have h6: "storedContentType pngObject = Some (js ''image/png'')"
    by (simp add: storedContentType_def pngObject_def)
  have h7: "startsWith (js ''image/png'') (js ''image/'')"
    by (simp add: startsWith_def js_def)
  have b: "body pngObject = [0x89, 0x50, 0x4E, 0x47]"
    by (simp add: pngObject_def)
  from image_resize_passthrough [of allowAll ?ctx, OF example_allowed h2 h3 h4 h5 h6 h7]
    example_allowed [of ?ctx] h2 h3 h4 w h6 h7 b example_rate_limit_call
  show ?thesis by simp
qed

text \<open>
  Claim C5, as the handler implements it. A request whose \<^verbatim>\<open>width\<close> or \<^verbatim>\<open>height\<close>
  parameter has a non-empty value, for a stored object whose content type starts
  with \<^verbatim>\<open>video/\<close>, is answered 400 with a JSON body of the two fields \<^verbatim>\<open>error\<close> and
  \<^verbatim>\<open>suggestion\<close>, and the bytes of the object are not returned.
\<close>

theorem video_resize_unsupported:
  assumes "allowed (chk (rateLimitKey ctx)
             (orElse (RATE_LIMIT_REQUESTS ctx) (Num 50))
             (orElse (RATE_LIMIT_WINDOW_MS ctx) (Num 60000)))"
    and "decodeKey (paramsKey ctx) = Inr key"
    and "\<not> rejectedPath key"
    and "R2 ctx key = Some obj"
    and "truthyStr (width ctx) \<or> truthyStr (height ctx)"
    and "storedContentType obj = Some ct"
    and "startsWith ct (js ''video/'')"
  shows "onRequestGet chk ctx =
           (Inr \<lparr>status = 400,
                 headers = [(js ''content-type'', js ''application/json'')],
                 payload = JsonObject [(js ''error'', msgVideoError),
                                       (js ''suggestion'', msgVideoSuggestion)]\<rparr>,
            [rateLimitCall ctx, R2Get key])"
proof -
  have "\<not> startsWith ct (js ''image/'')"
    using assms(7) by (rule video_not_image)
  with assms show ?thesis
    by (simp add: onRequestGet_def serveObject_def optStartsWith_def)
qed

theorem video_resize_unsupported_witness:
  "allowed (allowAll (rateLimitKey (request (js ''clips___a.mp4'') (Some (js ''100'')) None))
     (orElse (RATE_LIMIT_REQUESTS (request (js ''clips___a.mp4'') (Some (js ''100'')) None))
        (Num 50))
     (orElse (RATE_LIMIT_WINDOW_MS (request (js ''clips___a.mp4'') (Some (js ''100'')) None))
        (Num 60000)))
   \<and> decodeKey (paramsKey (request (js ''clips___a.mp4'') (Some (js ''100'')) None)) =
       Inr (js ''clips/a.mp4'')
   \<and> \<not> rejectedPath (js ''clips/a.mp4'')
   \<and> R2 (request (js ''clips___a.mp4'') (Some (js ''100'')) None) (js ''clips/a.mp4'') =
       Some mp4Object
   \<and> truthyStr (width (request (js ''clips___a.mp4'') (Some (js ''100'')) None))
   \<and> storedContentType mp4Object = Some (js ''video/mp4'')
   \<and> startsWith (js ''video/mp4'') (js ''video/'')
   \<and> onRequestGet allowAll (request (js ''clips___a.mp4'') (Some (js ''100'')) None) =
       (Inr \<lparr>status = 400,
             headers = [(js ''content-type'', js ''application/json'')],
             payload = JsonObject [(js ''error'', msgVideoError),
                                   (js ''suggestion'', msgVideoSuggestion)]\<rparr>,
        [CheckRateLimit (js ''r2:203.0.113.7'') (Num 50) (Num 60000),
         R2Get (js ''clips/a.mp4'')])"
proof -
  let ?ctx = "request (js ''clips___a.mp4'') (Some (js ''100'')) None"
  have h2: "decodeKey (paramsKey ?ctx) = Inr (js ''clips/a.mp4'')"
    by (simp add: request_def decode_tokens)
  have h3: "\<not> rejectedPath (js ''clips/a.mp4'')"
    by (rule rejected_examples)
  have h4: "R2 ?ctx (js ''clips/a.mp4'') = Some mp4Object"
    by (simp add: request_def store_examples)
  have w: "truthyStr (width ?ctx)"
    by (simp add: request_def js_def)
  then have h5: "truthyStr (width ?ctx) \<or> truthyStr (height ?ctx)"
    by simp
  have h6: "storedContentType mp4Object = Some (js ''video/mp4'')"
    by (simp add: storedContentType_def mp4Object_def)
  have h7: "startsWith (js ''video/mp4'') (js ''video/'')"
    by (simp add: startsWith_def js_def)
  from video_resize_unsupported [of allowAll ?ctx, OF example_allowed h2 h3 h4 h5 h6 h7]
    example_allowed [of ?ctx] h2 h3 h4 w h6 h7 example_rate_limit_call
  show ?thesis by simp
qed

text \<open>
  Claim C5 as stated fails. The request \<^verbatim>\<open>?width=\<close> includes the parameter with an
  empty value, which is falsy: for a stored video the handler answers 200 with the
  bytes of the object.
\<close>

theorem empty_width_on_video_counterexample:
  "width (request (js ''clips___a.mp4'') (Some []) None) = Some []
   \<and> storedContentType mp4Object = Some (js ''video/mp4'')
   \<and> startsWith (js ''video/mp4'') (js ''video/'')
   \<and> onRequestGet allowAll (request (js ''clips___a.mp4'') (Some []) None) =
       (Inr \<lparr>status = 200,
             headers = [(js ''content-type'', js ''video/mp4''),
                        (js ''cache-control'', js ''public, max-age=31536000'')],
             payload = ObjectBody (body mp4Object)\<rparr>,
        [CheckRateLimit (js ''r2:203.0.113.7'') (Num 50) (Num 60000),
         R2Get (js ''clips/a.mp4'')])"
proof -
  let ?ctx = "request (js ''clips___a.mp4'') (Some []) None"
  have h2: "decodeKey (paramsKey ?ctx) = Inr (js ''clips/a.mp4'')"
    by (simp add: request_def decode_tokens)
  have h4: "R2 ?ctx (js ''clips/a.mp4'') = Some mp4Object"
    by (simp add: request_def store_examples)
  have w: "width ?ctx = Some []" "height ?ctx = None"
    by (simp_all add: request_def)
  have h6: "storedContentType mp4Object = Some (js ''video/mp4'')"
    by (simp add: storedContentType_def mp4Object_def)
  have h7: "startsWith (js ''video/mp4'') (js ''video/'')"
    by (simp add: startsWith_def js_def)
  have ne: "js ''video/mp4'' \<noteq> []"
    by (simp add: js_def)
  have "onRequestGet allowAll ?ctx =
       (Inr \<lparr>status = 200,
             headers = [(js ''content-type'', js ''video/mp4''),
                        (js ''cache-control'', js ''public, max-age=31536000'')],
             payload = ObjectBody (body mp4Object)\<rparr>,
        [rateLimitCall ?ctx, R2Get (js ''clips/a.mp4'')])"
    using h2 h4 w h6 ne
    by (simp add: onRequestGet_def serveObject_def allowAll_def rejected_examples)
  with w h6 h7 example_rate_limit_call show ?thesis by simp
qed

text \<open>
  Claim C7, as the handler implements it. A request that passes the rate limiter,
  the path check and the lookup and takes neither resize branch is answered 200
  with the bytes of the object, the stored content type (or
  \<^verbatim>\<open>application/octet-stream\<close> when none is stored or it is empty) and the header
  \<^verbatim>\<open>cache-control: public, max-age=31536000\<close>, which is 365 days.
\<close>

theorem plain_object_response:
  assumes "allowed (chk (rateLimitKey ctx)
             (orElse (RATE_LIMIT_REQUESTS ctx) (Num 50))
             (orElse (RATE_LIMIT_WINDOW_MS ctx) (Num 60000)))"
    and "decodeKey (paramsKey ctx) = Inr key"
    and "\<not> rejectedPath key"
    and "R2 ctx key = Some obj"
    and "\<not> ((truthyStr (width ctx) \<or> truthyStr (height ctx))
            \<and> optStartsWith (storedContentType obj) (js ''image/''))"
    and "\<not> ((truthyStr (width ctx) \<or> truthyStr (height ctx))
            \<and> optStartsWith (storedContentType obj) (js ''video/''))"
  shows "onRequestGet chk ctx =
           (Inr \<lparr>status = 200,
                 headers = [(js ''content-type'',
                             case storedContentType obj of
                               None \<Rightarrow> js ''application/octet-stream''
                             | Some ct \<Rightarrow> if ct = [] then js ''application/octet-stream'' else ct),
                            (js ''cache-control'', js ''public, max-age=31536000'')],
                 payload = ObjectBody (body obj)\<rparr>,
            [rateLimitCall ctx, R2Get key])"
  using assms
  by (cases "storedContentType obj") (auto simp: onRequestGet_def serveObject_def)

theorem plain_object_response_witness:
  "allowed (allowAll (rateLimitKey (request (js ''notes___raw'') None None))
     (orElse (RATE_LIMIT_REQUESTS (request (js ''notes___raw'') None None)) (Num 50))
     (orElse (RATE_LIMIT_WINDOW_MS (request (js ''notes___raw'') None None)) (Num 60000)))
   \<and> decodeKey (paramsKey (request (js ''notes___raw'') None None)) = Inr (js ''notes/raw'')
   \<and> \<not> rejectedPath (js ''notes/raw'')
   \<and> R2 (request (js ''notes___raw'') None None) (js ''notes/raw'') = Some rawObject
   \<and> \<not> ((truthyStr (width (request (js ''notes___raw'') None None))
           \<or> truthyStr (height (request (js ''notes___raw'') None None)))
          \<and> optStartsWith (storedContentType rawObject) (js ''image/''))
   \<and> \<not> ((truthyStr (width (request (js ''notes___raw'') None None))
           \<or> truthyStr (height (request (js ''notes___raw'') None None)))
          \<and> optStartsWith (storedContentType rawObject) (js ''video/''))
   \<and> onRequestGet allowAll (request (js ''notes___raw'') None None) =
       (Inr \<lparr>status = 200,
             headers = [(js ''content-type'', js ''application/octet-stream''),
                        (js ''cache-control'', js ''public, max-age=31536000'')],
             payload = ObjectBody [0x01, 0x02]\<rparr>,
        [CheckRateLimit (js ''r2:203.0.113.7'') (Num 50) (Num 60000),
         R2Get (js ''notes/raw'')])"
proof -
  let ?ctx = "request (js ''notes___raw'') None None"
  have h2: "decodeKey (paramsKey ?ctx) = Inr (js ''notes/raw'')"
    by (simp add: request_def decode_tokens)
  have h3: "\<not> rejectedPath (js ''notes/raw'')"
    by (rule rejected_examples)
  have h4: "R2 ?ctx (js ''notes/raw'') = Some rawObject"
    by (simp add: request_def store_examples)
  have h5: "\<not> ((truthyStr (width ?ctx) \<or> truthyStr (height ?ctx))
          \<and> optStartsWith (storedContentType rawObject) (js ''image/''))"
    by (simp add: request_def)
  have h6: "\<not> ((truthyStr (width ?ctx) \<or> truthyStr (height ?ctx))
          \<and> optStartsWith (storedContentType rawObject) (js ''video/''))"
    by (simp add: request_def)
  have ct: "storedContentType rawObject = None" "body rawObject = [0x01, 0x02]"
    by (simp_all add: storedContentType_def rawObject_def)
  from plain_object_response [of allowAll ?ctx, OF example_allowed h2 h3 h4 h5 h6]
    example_allowed [of ?ctx] h2 h3 h4 h5 h6 ct example_rate_limit_call
  show ?thesis by simp
qed

text \<open>
  Claim C7 as stated fails. The cache-control header the handler sends is public
  and lasts one year, and it holds no \<^verbatim>\<open>immutable\<close> directive.
\<close>

theorem cache_control_counterexample:
  "onRequestGet allowAll (request (js ''notes___raw'') None None) =
       (Inr \<lparr>status = 200,
             headers = [(js ''content-type'', js ''application/octet-stream''),
                        (js ''cache-control'', js ''public, max-age=31536000'')],
             payload = ObjectBody [0x01, 0x02]\<rparr>,
        [CheckRateLimit (js ''r2:203.0.113.7'') (Num 50) (Num 60000),
         R2Get (js ''notes/raw'')])
   \<and> \<not> includesStr (js ''public, max-age=31536000'') (js ''immutable'')"
proof -
  let ?ctx = "request (js ''notes___raw'') None None"
  have h2: "decodeKey (paramsKey ?ctx) = Inr (js ''notes/raw'')"
    by (simp add: request_def decode_tokens)
  have h4: "R2 ?ctx (js ''notes/raw'') = Some rawObject"
    by (simp add: request_def store_examples)
  have w: "width ?ctx = None" "height ?ctx = None"
    by (simp_all add: request_def)
  have ct: "storedContentType rawObject = None" "body rawObject = [0x01, 0x02]"
    by (simp_all add: storedContentType_def rawObject_def)
  have "onRequestGet allowAll ?ctx =
       (Inr \<lparr>status = 200,
             headers = [(js ''content-type'', js ''application/octet-stream''),
                        (js ''cache-control'', js ''public, max-age=31536000'')],
             payload = ObjectBody [0x01, 0x02]\<rparr>,
        [rateLimitCall ?ctx, R2Get (js ''notes/raw'')])"
    using h2 h4 w ct
    by (simp add: onRequestGet_def serveObject_def allowAll_def rejected_examples
        optStartsWith_def)
  moreover have "\<not> includesStr (js ''public, max-age=31536000'') (js ''immutable'')"
    by (simp add: js_def startsWith_def)
  ultimately show ?thesis
    using example_rate_limit_call by simp
qed

section \<open>Facts about the thumbnail generator\<close>

lemma mount_eq:
  "mount = \<lparr>videoThumb = None, isGeneratingThumb = False, containerRef = None,
             observing = False, phase = NotRunning, started = 0\<rparr>"
  by (simp add: mount_def effect_def)

lemma idle_step:
  assumes "\<not> observing c" and "phase c = NotRunning"
  shows "step e c = c"
  using assms by (cases e) simp_all

lemma idle_run:
  assumes "\<not> observing c" and "phase c = NotRunning"
  shows "run evs c = c"
  using assms by (induction evs) (simp_all add: idle_step)

lemma nothing_ever_starts: "run evs mount = mount"
  by (rule idle_run) (simp_all add: mount_eq)

lemma attemptFails_step: "attemptFails e c \<Longrightarrow> step e c = failed c"
  by (cases e) (auto simp: capture_def)

lemma no_attempt_as_written: "\<not> attemptFails e (run evs mount)"
proof -
  have "phase (run evs mount) = NotRunning"
    by (simp only: nothing_ever_starts) (simp add: mount_eq)
  then show ?thesis
    by (cases e) simp_all
qed


section \<open>Facts about the double arithmetic of the capture\<close>







lemma exponent_numeral:
  "exponent (numeral k) x =
     (if x < 1 then exponent (pred_numeral k) (2 * x) - 1
      else if 2 \<le> x then exponent (pred_numeral k) (x / 2) + 1
      else 0)"
  by (simp add: numeral_eq_Suc)

lemma floor_divide_numeral_rat:
  "\<lfloor>numeral a / numeral b :: rat\<rfloor> = numeral a div numeral b"
  using floor_divide_of_int_eq [of "numeral a" "numeral b", where ?'a = rat] by simp



text \<open>
  The double arithmetic is visible at a tie: for a video of 112 by 21 pixels the
  exact scaled height is 112.5, the double product is just below it, and the canvas
  gets 112 rows.
\<close>

lemma double_rounding_at_tie:
  "mathRound (binary64 (21 * binary64 (600 / 112))) = 112"
proof -
  have q: "(600 / 112 :: rat) = 75 / 14"
    by simp
  have s: "binary64 (75 / 14) = 6031606643799771 / 2 ^ 50"
    by (simp add: binary64_def exponent_numeral roundTiesToEven_def Let_def
        floor_divide_numeral_rat)
  have p: "binary64 (21 * (6031606643799771 / 2 ^ 50)) = 7916483719987199 / 2 ^ 46"
    by (simp add: binary64_def exponent_numeral roundTiesToEven_def Let_def
        floor_divide_numeral_rat)
  have r: "mathRound (7916483719987199 / 2 ^ 46) = 112"
    by (simp add: mathRound_def floor_divide_numeral_rat)
  show ?thesis
    by (simp only: q s p r)
qed







section \<open>Frame capture\<close>


text \<open>
  The same for every card whose ref holds an element and every way an attempt can
  fail.
\<close>

lemma attached_ref_retries:
  assumes "containerRef c = Some el" and "attemptFails e c"
  shows "observing (step e c)"
    and "started (run [Intersect True] (step e c)) = Suc (started c)"
    and "isGeneratingThumb (run [Intersect True] (step e c))"
  using assms
  by (simp_all add: attemptFails_step failed_def rerender_def effect_def start_def)




end
